theory Spec2Isabelle
  imports Complex_Main
begin

section \<open>Data model\<close>

text \<open>
  Python strings are sequences of Unicode code points, so a \<open>str\<close> is a list of code
  points and \<open>len\<close>, slicing and \<open>replace\<close> work on that list. ASCII literals of the
  source are written through \<open>str\<close>; the euro sign of the origin-price pattern is the code
  point U+20AC. Python floats are idealised as real numbers and Python ints are unbounded.
\<close>

type_synonym codepoint = nat
type_synonym pystr = "codepoint list"

definition str :: "string \<Rightarrow> pystr" where
  "str cs = map of_char cs"

definition euro :: codepoint where
  "euro = 8364"

definition DEFAULT_CARBON_PRICE :: real where
  "DEFAULT_CARBON_PRICE = 78.54"

definition DEFAULT_CARBON_PRICE_v1 :: real where
  "DEFAULT_CARBON_PRICE_v1 = 80.0"

definition MIN_REQUEST_INTERVAL :: real where
  "MIN_REQUEST_INTERVAL = 2.0"

definition RETRY_DELAY :: real where
  "RETRY_DELAY = 5"

definition NUM_RESULTS :: nat where
  "NUM_RESULTS = 3"

definition HISTORY_LENGTH :: nat where
  "HISTORY_LENGTH = 5"

text \<open>The two dictionaries of the second variant, in source order.\<close>

definition RECENT_PRICES :: "(pystr \<times> real) list" where
  "RECENT_PRICES =
     [(str ''2025-10-31'', 78.54),
      (str ''2025-10-01'', 76.30),
      (str ''2025-09-15'', 74.80),
      (str ''2025-09-01'', 73.20)]"

definition DEFAULT_EMISSIONS :: "(pystr \<times> real) list" where
  "DEFAULT_EMISSIONS =
     [(str ''steel'', 2.3),
      (str ''aluminum'', 8.6),
      (str ''cement'', 0.9),
      (str ''fertilizer'', 1.5),
      (str ''electricity'', 0.4),
      (str ''glass'', 0.8),
      (str ''ceramics'', 0.7),
      (str ''hydrogen'', 10.0)]"

text \<open>\<open>d.get(k)\<close>: the value stored under the key, or \<open>None\<close>.\<close>

definition dict_get :: "(pystr \<times> 'v) list \<Rightarrow> pystr \<Rightarrow> 'v option" where
  "dict_get d k = map_of d k"

section \<open>Cost calculator\<close>

text \<open>
  First variant:
  \<^verbatim>\<open>
  def calculate_cbam_cost(embedded_emissions, origin_carbon_price=0, eu_carbon_price=None):
      if eu_carbon_price is None:
          eu_carbon_price = st.session_state.carbon_price
      cbam_cost = embedded_emissions * (eu_carbon_price - origin_carbon_price)
      return max(0, cbam_cost)
  \<close>
  The session's carbon price is the first argument of the model; an omitted
  \<open>eu_carbon_price\<close> is \<open>None\<close>.
\<close>

definition calculate_cbam_cost_v1 :: "real \<Rightarrow> real \<Rightarrow> real \<Rightarrow> real option \<Rightarrow> real" where
  "calculate_cbam_cost_v1 session_price embedded_emissions origin_carbon_price eu_carbon_price =
     (let eu = (case eu_carbon_price of None \<Rightarrow> session_price | Some p \<Rightarrow> p);
          cbam_cost = embedded_emissions * (eu - origin_carbon_price)
      in max 0 cbam_cost)"

text \<open>
  Second variant:
  \<^verbatim>\<open>
  def calculate_cbam_cost(embedded_emissions: float, origin_price: float = 0.0,
                          eu_price: float | None = None):
      eu_price = eu_price or st.session_state.carbon_price
      return max(0.0, embedded_emissions * (eu_price - origin_price))
  \<close>
  Python's \<open>a or b\<close> is \<open>b\<close> when \<open>a\<close> is falsy, and both \<open>None\<close> and the float
  \<open>0.0\<close> are falsy.
\<close>

definition py_or :: "real option \<Rightarrow> real \<Rightarrow> real" where
  "py_or a b = (case a of None \<Rightarrow> b | Some x \<Rightarrow> if x = 0 then b else x)"

definition calculate_cbam_cost :: "real \<Rightarrow> real \<Rightarrow> real \<Rightarrow> real option \<Rightarrow> real" where
  "calculate_cbam_cost session_price embedded_emissions origin_price eu_price =
     (let eu = py_or eu_price session_price
      in max 0.0 (embedded_emissions * (eu - origin_price)))"

section \<open>Regular expressions as the \<open>re\<close> module runs them\<close>

text \<open>
  The classifier is three calls of \<open>re.search\<close> under \<open>re.IGNORECASE\<close>. The patterns use
  the classes \<open>\d\<close>, \<open>\s\<close>, \<open>\w\<close> and \<open>.\<close>, literal characters, concatenation,
  alternation, the greedy operators \<open>*\<close>, \<open>+\<close>, \<open>?\<close> and \<open>{3}\<close>, the lazy \<open>*?\<close> and capturing
  groups. The classes are modelled on the ASCII range, where \<open>\s\<close> of a \<open>str\<close> pattern also
  holds the separators U+001C to U+001F. Python's classes hold more: the decimal digits,
  letters and spaces above U+007F, and under \<open>re.IGNORECASE\<close> the letters U+017F and U+212A
  match "s" and "k". The model leaves these out: it is exact on texts of ASCII characters
  and euro signs. \<open>.\<close> is every code point but the line feed, since no pattern sets
  \<open>re.DOTALL\<close>.
\<close>

datatype cclass = Digit | Space | Word | Dot | Lit codepoint

definition is_digit :: "codepoint \<Rightarrow> bool" where
  "is_digit x = (48 \<le> x \<and> x \<le> 57)"

definition is_space :: "codepoint \<Rightarrow> bool" where
  "is_space x = ((9 \<le> x \<and> x \<le> 13) \<or> (28 \<le> x \<and> x \<le> 32))"

definition is_word :: "codepoint \<Rightarrow> bool" where
  "is_word x = ((48 \<le> x \<and> x \<le> 57) \<or> (65 \<le> x \<and> x \<le> 90) \<or> x = 95 \<or> (97 \<le> x \<and> x \<le> 122))"

definition lower_cp :: "codepoint \<Rightarrow> codepoint" where
  "lower_cp x = (if 65 \<le> x \<and> x \<le> 90 then x + 32 else x)"

text \<open>\<open>s.lower()\<close>\<close>

definition lower :: "pystr \<Rightarrow> pystr" where
  "lower s = map lower_cp s"

text \<open>A literal of the pattern matches a character of the text up to case.\<close>

fun cmem :: "cclass \<Rightarrow> codepoint \<Rightarrow> bool" where
  "cmem Digit x = is_digit x"
| "cmem Space x = is_space x"
| "cmem Word x = is_word x"
| "cmem Dot x = (x \<noteq> 10)"
| "cmem (Lit p) x = (lower_cp x = lower_cp p)"

datatype re =
    Atom cclass
  | Eps
  | Seq re re
  | Alt re re
  | Star re
  | LazyStar re
  | Group nat re

text \<open>The groups captured so far: \<open>None\<close> for a group that has not taken part.\<close>

type_synonym caps = "nat \<Rightarrow> pystr option"

text \<open>
  The backtracking matcher. \<open>bt r s c k\<close> matches \<open>r\<close> at the front of \<open>s\<close> and hands the
  rest of the text and the groups to the continuation \<open>k\<close>, which matches what follows
  \<open>r\<close> in the pattern; when \<open>k\<close> fails, the next way of matching \<open>r\<close> is tried, in the
  engine's order: the left alternative before the right one, one more iteration of a greedy
  star before leaving it, leaving a lazy star before one more iteration. An iteration of a
  star that consumes nothing is not repeated.
\<close>

function bt :: "re \<Rightarrow> pystr \<Rightarrow> caps \<Rightarrow> (pystr \<Rightarrow> caps \<Rightarrow> caps option) \<Rightarrow> caps option" where
  "bt (Atom cl) s c k = (case s of [] \<Rightarrow> None | x # xs \<Rightarrow> if cmem cl x then k xs c else None)"
| "bt Eps s c k = k s c"
| "bt (Seq a b) s c k = bt a s c (\<lambda>s' c'. bt b s' c' k)"
| "bt (Alt a b) s c k = (case bt a s c k of Some r \<Rightarrow> Some r | None \<Rightarrow> bt b s c k)"
| "bt (Star a) s c k =
     (case bt a s c (\<lambda>s' c'. if length s' < length s then bt (Star a) s' c' k else None) of
        Some r \<Rightarrow> Some r
      | None \<Rightarrow> k s c)"
| "bt (LazyStar a) s c k =
     (case k s c of
        Some r \<Rightarrow> Some r
      | None \<Rightarrow> bt a s c (\<lambda>s' c'. if length s' < length s then bt (LazyStar a) s' c' k else None))"
| "bt (Group n a) s c k =
     bt a s c (\<lambda>s' c'. k s' (c'(n := Some (take (length s - length s') s))))"
  by pat_completeness auto
termination
  by (relation "inv_image (less_than <*lex*> less_than) (\<lambda>(r, s, c, k). (size r, length s))") auto

declare bt.simps [simp del]

text \<open>A match of the whole pattern at the front of the text: the groups of the first way found.\<close>

definition match_here :: "re \<Rightarrow> pystr \<Rightarrow> caps option" where
  "match_here r s = bt r s (\<lambda>n. None) (\<lambda>s' c'. Some c')"

text \<open>\<open>re.search\<close>: the match at the leftmost position that has one, the end of the text included.\<close>

fun search :: "re \<Rightarrow> pystr \<Rightarrow> caps option" where
  "search r [] = match_here r []"
| "search r (x # xs) =
     (case match_here r (x # xs) of
        Some c \<Rightarrow> Some c
      | None \<Rightarrow> search r xs)"

text \<open>
  \<open>mo.group(n)\<close>. Every group of the patterns below lies on every path through its pattern,
  so it has taken part in every match.
\<close>

definition group :: "caps \<Rightarrow> nat \<Rightarrow> pystr" where
  "group c n = (case c n of Some u \<Rightarrow> u | None \<Rightarrow> [])"

subsection \<open>Pattern notation\<close>

definition cat :: "re list \<Rightarrow> re" where
  "cat rs = foldr Seq rs Eps"

definition lit :: "string \<Rightarrow> re" where
  "lit cs = cat (map (\<lambda>ch. Atom (Lit (of_char ch))) cs)"

definition plus :: "re \<Rightarrow> re" where
  "plus r = Seq r (Star r)"

definition opt :: "re \<Rightarrow> re" where
  "opt r = Alt r Eps"

text \<open>\<open>\d+(?:\.\d+)?\<close>\<close>

definition number_re :: re where
  "number_re = cat [plus (Atom Digit), opt (cat [Atom (Lit 46), plus (Atom Digit)])]"

text \<open>\<open>,\d{3}\<close> and \<open>\d+(?:,\d{3})*\<close>\<close>

definition comma_group :: re where
  "comma_group = cat [Atom (Lit 44), Atom Digit, Atom Digit, Atom Digit]"

definition integer_re :: re where
  "integer_re = cat [plus (Atom Digit), Star comma_group]"

text \<open>\<open>\s+tons?\s+\<close> and \<open>(?:of\s+)?\<close>\<close>

definition tons_re :: "re list" where
  "tons_re = [plus (Atom Space), lit ''ton'', opt (lit ''s''), plus (Atom Space)]"

definition of_re :: re where
  "of_re = opt (cat [lit ''of'', plus (Atom Space)])"

text \<open>\<open>(\d+(?:,\d{3})*)\s+tons?\s+(?:of\s+)?(\w+)\<close>\<close>

definition qty_re :: re where
  "qty_re = cat (Group 1 integer_re # tons_re @ [of_re, Group 2 (plus (Atom Word))])"

text \<open>\<open>(\d+(?:\.\d+)?)\s*tCO2e?(?:/ton)?\<close>\<close>

definition em_re :: re where
  "em_re =
     cat [Group 1 number_re, Star (Atom Space), lit ''tCO2'', opt (lit ''e''),
          opt (lit ''/ton'')]"

text \<open>\<open>(?:origin|paid|cost)\<close>\<close>

definition keyword_re :: re where
  "keyword_re = Alt (lit ''origin'') (Alt (lit ''paid'') (lit ''cost''))"

text \<open>\<open>(?:origin|paid|cost).*?\<euro>?(\d+(?:\.\d+)?)\<close>, with the euro sign U+20AC\<close>

definition origin_re :: re where
  "origin_re = cat [keyword_re, LazyStar (Atom Dot), opt (Atom (Lit euro)), Group 1 number_re]"

subsection \<open>Number conversion\<close>

text \<open>
  The exceptions that nothing in \<open>main\<close> catches: \<open>ValueError\<close> from \<open>int\<close> and \<open>OverflowError\<close>
  from the product of a float and an integer.
\<close>

datatype crash = ValueError | OverflowError

text \<open>The value of a string of decimal digits.\<close>

definition digit_val :: "codepoint \<Rightarrow> int" where
  "digit_val x = int (x - 48)"

definition decimal :: "pystr \<Rightarrow> int" where
  "decimal s = foldl (\<lambda>a x. 10 * a + digit_val x) 0 s"

text \<open>
  \<open>int(s)\<close> and \<open>float(s)\<close> on the strings the groups capture: decimal digits, and decimal
  digits with an optional fraction. \<open>int\<close> raises \<open>ValueError\<close> on a string of more than 4300
  digits, leading zeros counted (the default of \<open>sys.get_int_max_str_digits()\<close>); \<open>float\<close> has
  no such limit. Floats are real numbers here: neither rounding nor the overflow of \<open>float\<close>
  to infinity is modelled.
\<close>

definition INT_MAX_STR_DIGITS :: nat where
  "INT_MAX_STR_DIGITS = 4300"

definition py_int :: "pystr \<Rightarrow> crash + int" where
  "py_int s = (if INT_MAX_STR_DIGITS < length s then Inl ValueError else Inr (decimal s))"

definition py_float :: "pystr \<Rightarrow> real" where
  "py_float s =
     (let ip = takeWhile (\<lambda>x. x \<noteq> 46) s;
          fp = drop (length ip + 1) s
      in of_int (decimal ip) + of_int (decimal fp) / 10 ^ length fp)"

text \<open>
  \<open>x * n\<close> for a float \<open>x\<close> and an integer \<open>n\<close>: the integer is converted to a float first, which
  raises \<open>OverflowError\<close> when it rounds to a magnitude beyond the largest float, that is from
  \<open>2 ^ 1024 - 2 ^ 970\<close> on.
\<close>

definition float_mul_int :: "real \<Rightarrow> int \<Rightarrow> crash + real" where
  "float_mul_int x n = (if 2 ^ 1024 - 2 ^ 970 \<le> \<bar>n\<bar> then Inl OverflowError else Inr (x * of_int n))"

text \<open>\<open>s.replace(",", "")\<close>\<close>

definition strip_commas :: "pystr \<Rightarrow> pystr" where
  "strip_commas s = filter (\<lambda>x. x \<noteq> 44) s"

section \<open>Request classifier\<close>

record parsed_request =
  product :: "pystr option"
  quantity :: "int option"
  emissions :: "real option"
  origin_price :: real

text \<open>
  \<^verbatim>\<open>
  def extract_cbam_request(text: str):
      qty_pat = re.search(r"(\d+(?:,\d{3})*)\s+tons?\s+(?:of\s+)?(\w+)", text, re.IGNORECASE)
      em_pat = re.search(r"(\d+(?:\.\d+)?)\s*tCO2e?(?:/ton)?", text, re.IGNORECASE)
      origin_pat = re.search(r"(?:origin|paid|cost).*?E?(\d+(?:\.\d+)?)", text, re.IGNORECASE)
      quantity = int(qty_pat.group(1).replace(",", "")) if qty_pat else None
      product = qty_pat.group(2).lower() if qty_pat else None
      emissions = float(em_pat.group(1)) if em_pat else None
      origin_price = float(origin_pat.group(1)) if origin_pat else 0.0
      return product, quantity, emissions, origin_price
  \<close>
  (\<open>E\<close> stands for the euro sign.)
\<close>

text \<open>
  The quantity is converted first: when \<open>int\<close> raises, so does the classifier.
\<close>

definition extract_cbam_request :: "pystr \<Rightarrow> crash + parsed_request" where
  "extract_cbam_request text =
     (let qty_pat = search qty_re text;
          em_pat = search em_re text;
          origin_pat = search origin_re text
      in case (case qty_pat of
                 Some c \<Rightarrow> map_sum id Some (py_int (strip_commas (group c 1)))
               | None \<Rightarrow> Inr None) of
           Inl e \<Rightarrow> Inl e
         | Inr qty \<Rightarrow>
             Inr \<lparr>product = (case qty_pat of Some c \<Rightarrow> Some (lower (group c 2)) | None \<Rightarrow> None),
                  quantity = qty,
                  emissions = (case em_pat of Some c \<Rightarrow> Some (py_float (group c 1)) | None \<Rightarrow> None),
                  origin_price = (case origin_pat of Some c \<Rightarrow> py_float (group c 1) | None \<Rightarrow> 0.0)\<rparr>)"

section \<open>Session state, external services and what the user sees\<close>

datatype role = User | Assistant

text \<open>
  The content of a chat message is a text, or the calculation report of the fast path; the
  report keeps the values that the f-string of \<open>main\<close> formats.
\<close>

record calc_report =
  rep_product :: pystr
  rep_quantity :: int
  rep_factor :: real
  rep_total :: real
  rep_eu_price :: real
  rep_origin :: real
  rep_cost :: real

datatype content = Text pystr | Report calc_report

type_synonym message = "role \<times> content"

text \<open>
  The prompt of \<open>build_prompt\<close>: the parts that the fixed template is filled with (retrieved
  context, carbon price, the history lines, the question).
\<close>

record prompt =
  p_context :: pystr
  p_price :: real
  p_history :: "message list"
  p_question :: pystr

datatype exn = Exception pystr

datatype error_box = SearchError | LLMError | PriceFileError

datatype event =
    Markdown role content
  | Caption pystr
  | ErrorBox error_box exn
  | WarningBox
  | Sleep real
  | Request real pystr prompt
  | Search pystr nat
  | PriceFile real bool
  | Uncaught crash

text \<open>
  The external services. \<open>search_service\<close> answers a query and a limit with the ranked
  matches, each a text and a file name, or raises; everything that can raise inside the
  \<open>try\<close> block of \<open>cortex_search\<close> is this one outcome. \<open>complete_service n\<close> is the outcome of
  the \<open>n\<close>-th call of \<open>complete\<close> in the session: the time the call takes, and the answer or
  the exception.
\<close>

record services =
  search_service :: "pystr \<Rightarrow> nat \<Rightarrow> exn + (pystr \<times> pystr) list"
  complete_service :: "nat \<Rightarrow> pystr \<Rightarrow> prompt \<Rightarrow> real \<times> (exn + pystr)"

text \<open>
  The keys of \<open>st.session_state\<close> that \<open>init_session_state\<close> creates, the clock that
  \<open>time.time()\<close> reads, the number of completion calls made so far, and the trace of what
  was shown and of the external calls, oldest first.
\<close>

record world =
  messages :: "message list"
  last_request_time :: real
  carbon_price :: real
  is_manual_price :: bool
  selected_historic_date :: "pystr option"
  manual_override_price :: "real option"
  clock :: real
  calls :: nat
  trace :: "event list"

definition emit :: "event \<Rightarrow> world \<Rightarrow> world" where
  "emit e w = w\<lparr>trace := trace w @ [e]\<rparr>"

text \<open>\<open>time.sleep(d)\<close>\<close>

definition sleep :: "real \<Rightarrow> world \<Rightarrow> world" where
  "sleep d w = emit (Sleep d) (w\<lparr>clock := clock w + d\<rparr>)"

text \<open>The session after \<open>init_session_state\<close> on first load, started at time \<open>t\<close>.\<close>

definition init_session_state :: "real \<Rightarrow> world" where
  "init_session_state t =
     \<lparr>messages = [], last_request_time = 0, carbon_price = DEFAULT_CARBON_PRICE,
      is_manual_price = False, selected_historic_date = None, manual_override_price = None,
      clock = t, calls = 0, trace = [PriceFile DEFAULT_CARBON_PRICE False]\<rparr>"

section \<open>Context retriever\<close>

text \<open>\<open>sep.join(xs)\<close>\<close>

fun join :: "pystr \<Rightarrow> pystr list \<Rightarrow> pystr" where
  "join sep [] = []"
| "join sep [x] = x"
| "join sep (x # y # ys) = x @ sep @ join sep (y # ys)"

definition apostrophe :: codepoint where
  "apostrophe = 39"

definition blank_line :: pystr where
  "blank_line = [10, 10]"

text \<open>
  \<^verbatim>\<open>
  def cortex_search(query: str):
      try:
          svc = (...)
          resp = svc.search(query=query, columns=["text", "file_name"], limit=NUM_RESULTS)
          results = json.loads(resp.to_json())["results"]
          context = "\n\n".join(r["text"] for r in results).replace("'", "")
          src = results[0]["file_name"] if results else "No source"
          return context[:8000], src
      except Exception as e:
          st.error(f"Cortex search error: {e}")
          return "", "Error"
  \<close>
\<close>

definition cortex_search :: "services \<Rightarrow> pystr \<Rightarrow> world \<Rightarrow> (pystr \<times> pystr) \<times> world" where
  "cortex_search E query w =
     (let w1 = emit (Search query NUM_RESULTS) w in
      case search_service E query NUM_RESULTS of
        Inr results \<Rightarrow>
          (let context = filter (\<lambda>x. x \<noteq> apostrophe) (join blank_line (map fst results));
               src = (case results of [] \<Rightarrow> str ''No source'' | r # _ \<Rightarrow> snd r)
           in ((take 8000 context, src), w1))
      | Inl e \<Rightarrow> (([], str ''Error''), emit (ErrorBox SearchError e) w1))"

text \<open>The first variant has no \<open>try\<close>: an exception of the search leaves the function.\<close>

definition cortex_search_v1 :: "services \<Rightarrow> pystr \<Rightarrow> world \<Rightarrow> exn + ((pystr \<times> pystr) \<times> world)" where
  "cortex_search_v1 E my_question w =
     (let w1 = emit (Search my_question NUM_RESULTS) w in
      case search_service E my_question NUM_RESULTS of
        Inr results \<Rightarrow>
          (let prompt_context = filter (\<lambda>x. x \<noteq> apostrophe) (join blank_line (map fst results));
               file_name = (case results of [] \<Rightarrow> str ''No source'' | r # _ \<Rightarrow> snd r)
           in Inr ((take 8000 prompt_context, file_name), w1))
      | Inl e \<Rightarrow> Inl e)"

section \<open>Prompt assembler\<close>

text \<open>
  \<^verbatim>\<open>
  def get_recent_history():
      start = max(0, len(st.session_state.messages) - HISTORY_LENGTH)
      return st.session_state.messages[start:-1]  # exclude the newest user message

  def format_history(history):
      return "\n".join(f"{m['role']}: {m['content']}" for m in history[-3:])
  \<close>
  The slice \<open>[start:-1]\<close> stops before the last message; subtraction on \<open>nat\<close> stops at 0 as
  \<open>max(0, ...)\<close> does.
\<close>

definition get_recent_history :: "world \<Rightarrow> message list" where
  "get_recent_history w =
     (let start = length (messages w) - HISTORY_LENGTH
      in butlast (drop start (messages w)))"

definition format_history :: "message list \<Rightarrow> message list" where
  "format_history history = drop (length history - 3) history"

definition build_prompt :: "services \<Rightarrow> pystr \<Rightarrow> world \<Rightarrow> (prompt \<times> pystr) \<times> world" where
  "build_prompt E user_question w =
     (let history = get_recent_history w;
          hist_str = format_history history;
          ((ctx, src), w1) = cortex_search E user_question w;
          price = carbon_price w1
      in ((\<lparr>p_context = ctx, p_price = price, p_history = hist_str,
             p_question = user_question\<rparr>, src), w1))"

section \<open>Completion client\<close>

definition MODEL_NAME :: pystr where
  "MODEL_NAME = str ''claude-haiku-4-5''"

text \<open>
  \<^verbatim>\<open>
  def llm_complete(model: str, prompt: str, retries: int = 2):
      now = time.time()
      elapsed = now - st.session_state.last_request_time
      if elapsed < MIN_REQUEST_INTERVAL:
          time.sleep(MIN_REQUEST_INTERVAL - elapsed)

      for attempt in range(retries):
          try:
              resp = complete(model, prompt)
              st.session_state.last_request_time = time.time()
              return resp
          except Exception as e:
              if attempt < retries - 1:
                  time.sleep(RETRY_DELAY * (attempt + 1))
              else:
                  st.error(f"LLM request failed: {e}")
                  return None
  \<close>
  \<open>throttle\<close> is the wait before the loop. \<open>call_complete\<close> is one call of \<open>complete\<close>: the
  request is issued at the current time, the call takes the time the service says, and the
  call counter advances. \<open>llm_attempts\<close> is the \<open>for\<close> loop from the iteration \<open>attempt\<close> on; a
  loop that runs out of iterations falls off the end of the function, which returns \<open>None\<close>.
  \<open>retries\<close> is a natural number: \<open>range\<close> of a negative number is as empty as \<open>range(0)\<close>.
\<close>

definition throttle :: "world \<Rightarrow> world" where
  "throttle w =
     (let now = clock w;
          elapsed = now - last_request_time w
      in if elapsed < MIN_REQUEST_INTERVAL then sleep (MIN_REQUEST_INTERVAL - elapsed) w else w)"

definition call_complete :: "services \<Rightarrow> pystr \<Rightarrow> prompt \<Rightarrow> world \<Rightarrow> (exn + pystr) \<times> world" where
  "call_complete E model pr w =
     (let (d, outcome) = complete_service E (calls w) model pr
      in (outcome, (emit (Request (clock w) model pr) w)\<lparr>clock := clock w + d, calls := calls w + 1\<rparr>))"

function llm_attempts :: "services \<Rightarrow> pystr \<Rightarrow> prompt \<Rightarrow> nat \<Rightarrow> nat \<Rightarrow> world \<Rightarrow> pystr option \<times> world" where
  "llm_attempts E model pr retries attempt w =
     (if attempt < retries then
        (case call_complete E model pr w of
           (Inr resp, w1) \<Rightarrow> (Some resp, w1\<lparr>last_request_time := clock w1\<rparr>)
         | (Inl e, w1) \<Rightarrow>
             if attempt < retries - 1
             then llm_attempts E model pr retries (attempt + 1) (sleep (RETRY_DELAY * (real attempt + 1)) w1)
             else (None, emit (ErrorBox LLMError e) w1))
      else (None, w))"
  by pat_completeness auto
termination
  by (relation "measure (\<lambda>(E, model, pr, retries, attempt, w). retries - attempt)") auto

declare llm_attempts.simps [simp del]

definition llm_complete :: "services \<Rightarrow> pystr \<Rightarrow> prompt \<Rightarrow> nat \<Rightarrow> world \<Rightarrow> pystr option \<times> world" where
  "llm_complete E model pr retries w = llm_attempts E model pr retries 0 (throttle w)"

section \<open>Conversation orchestrator\<close>

text \<open>Truth values of Python: \<open>None\<close>, the empty string and the integer 0 are falsy.\<close>

definition truthy_str :: "pystr option \<Rightarrow> bool" where
  "truthy_str v = (case v of None \<Rightarrow> False | Some s \<Rightarrow> s \<noteq> [])"

definition truthy_int :: "int option \<Rightarrow> bool" where
  "truthy_int v = (case v of None \<Rightarrow> False | Some n \<Rightarrow> n \<noteq> 0)"

text \<open>
  The part of \<open>main\<close> that runs once a question is entered:
  \<^verbatim>\<open>
        st.session_state.messages.append({"role": "user", "content": question})
        with st.chat_message("user", avatar=icons["user"]):
            st.markdown(question)

        prod, qty, em, origin = extract_cbam_request(question)
        if prod and qty:
            if em is None:
                em = DEFAULT_EMISSIONS.get(prod)
            if em is not None:
                total_em = em * qty
                cost = calculate_cbam_cost(total_em, origin)
                eu_p = st.session_state.carbon_price
                resp = f"""..."""
                st.session_state.messages.append({"role": "assistant", "content": resp})
                with st.chat_message("assistant", avatar=icons["assistant"]):
                    st.markdown(resp)
                return

        with st.chat_message("assistant", avatar=icons["assistant"]):
            with st.spinner("Searching docs..."):
                prompt, src = build_prompt(question)
                answer = llm_complete(MODEL_NAME, prompt)
                if answer:
                    st.markdown(answer)
                    st.caption(f"Source: {src}")
                    st.session_state.messages.append({"role": "assistant", "content": answer})
  \<close>
  \<open>post_question\<close> stores and shows the question. \<open>quick_calculation\<close> is the first block:
  \<open>Some\<close> of the session when it reaches \<open>return\<close>, \<open>None\<close> when control falls through to the
  second block, \<open>documentation_answer\<close>, and the exception when \<open>em * qty\<close> raises.
\<close>

definition post_question :: "pystr \<Rightarrow> world \<Rightarrow> world" where
  "post_question question w =
     emit (Markdown User (Text question)) (w\<lparr>messages := messages w @ [(User, Text question)]\<rparr>)"

definition quick_calculation :: "parsed_request \<Rightarrow> world \<Rightarrow> crash + world option" where
  "quick_calculation r w =
     (if truthy_str (product r) \<and> truthy_int (quantity r) then
        (case (product r, quantity r) of
           (Some prd, Some qty) \<Rightarrow>
             (let em = (case emissions r of None \<Rightarrow> dict_get DEFAULT_EMISSIONS prd | Some e \<Rightarrow> Some e)
              in case em of
                   Some e \<Rightarrow>
                     (case float_mul_int e qty of
                        Inl x \<Rightarrow> Inl x
                      | Inr total_em \<Rightarrow>
                          (let cost = calculate_cbam_cost (carbon_price w) total_em (origin_price r) None;
                               eu_p = carbon_price w;
                               resp = Report \<lparr>rep_product = prd, rep_quantity = qty, rep_factor = e,
                                              rep_total = total_em, rep_eu_price = eu_p,
                                              rep_origin = origin_price r, rep_cost = cost\<rparr>
                           in Inr (Some (emit (Markdown Assistant resp)
                                           (w\<lparr>messages := messages w @ [(Assistant, resp)]\<rparr>)))))
                 | None \<Rightarrow> Inr None)
         | _ \<Rightarrow> Inr None)
      else Inr None)"

definition documentation_answer :: "services \<Rightarrow> pystr \<Rightarrow> world \<Rightarrow> world" where
  "documentation_answer E question w =
     (let ((pr, src), w1) = build_prompt E question w;
          (answer, w2) = llm_complete E MODEL_NAME pr 2 w1
      in case answer of
           Some a \<Rightarrow>
             if a \<noteq> [] then
               (emit (Caption src) (emit (Markdown Assistant (Text a)) w2))
                 \<lparr>messages := messages w2 @ [(Assistant, Text a)]\<rparr>
             else w2
         | None \<Rightarrow> w2)"

text \<open>
  A turn of the conversation. An exception that reaches the top of the script ends the run:
  Streamlit shows it, and the session keeps what was stored before it was raised.
\<close>

definition ask :: "services \<Rightarrow> pystr \<Rightarrow> world \<Rightarrow> world" where
  "ask E question w =
     (let w1 = post_question question w
      in case extract_cbam_request question of
           Inl x \<Rightarrow> emit (Uncaught x) w1
         | Inr r \<Rightarrow>
             (case quick_calculation r w1 of
                Inl x \<Rightarrow> emit (Uncaught x) w1
              | Inr (Some w2) \<Rightarrow> w2
              | Inr None \<Rightarrow> documentation_answer E question w1))"

section \<open>Price controls\<close>

text \<open>
  The buttons of \<open>render_config_ui\<close>. Each run of the script handles at most one click, and
  every handler that changes the price ends in \<open>st.rerun()\<close>:
  \<^verbatim>\<open>
    with col_reset:
        if st.session_state.manual_override_price is not None or st.session_state.selected_historic_date is not None:
            if st.button("Reset", use_container_width=True):
                st.session_state.carbon_price = DEFAULT_CARBON_PRICE
                st.session_state.manual_override_price = None
                st.session_state.selected_historic_date = None
                write_price_to_stage(DEFAULT_CARBON_PRICE, False)
                st.rerun()
    with col_clear:
        if st.button("Clear Chat", use_container_width=True):
            st.session_state.messages = []
            st.rerun()
    ...
    for idx, (date, price) in enumerate(sorted(RECENT_PRICES.items(), reverse=True)):
        with cols[idx]:
            ...
            if st.button(f"{date}\n...", key=f"hist_{date}", ...):
                st.session_state.carbon_price = price
                st.session_state.selected_historic_date = date
                st.session_state.manual_override_price = None
                write_price_to_stage(price, False)
                st.rerun()
    ...
    disabled = st.session_state.selected_historic_date is not None
    ...
        if st.button("Update Price", use_container_width=True, disabled=disabled):
            if new_price > 0:
                st.session_state.carbon_price = new_price
                st.session_state.manual_override_price = new_price
                st.session_state.selected_historic_date = None
                write_price_to_stage(new_price, True)
                st.rerun()
            else:
                st.warning("Price must be > 0")
  \<close>
  A button that is not rendered or is disabled cannot be clicked: the action leaves the
  session as it is. \<open>UpdatePrice v\<close> is a click on "Update Price" with \<open>v\<close> in the number
  input.
\<close>

datatype action = Reset | ClearChat | SelectHistoric pystr | UpdatePrice real

definition manual_entry_disabled :: "world \<Rightarrow> bool" where
  "manual_entry_disabled w = (selected_historic_date w \<noteq> None)"

definition reset_rendered :: "world \<Rightarrow> bool" where
  "reset_rendered w = (manual_override_price w \<noteq> None \<or> selected_historic_date w \<noteq> None)"

fun click :: "action \<Rightarrow> world \<Rightarrow> world" where
  "click Reset w =
     (if reset_rendered w then
        emit (PriceFile DEFAULT_CARBON_PRICE False)
          (w\<lparr>carbon_price := DEFAULT_CARBON_PRICE, manual_override_price := None,
             selected_historic_date := None\<rparr>)
      else w)"
| "click ClearChat w = w\<lparr>messages := []\<rparr>"
| "click (SelectHistoric date) w =
     (case dict_get RECENT_PRICES date of
        Some price \<Rightarrow>
          emit (PriceFile price False)
            (w\<lparr>carbon_price := price, selected_historic_date := Some date,
               manual_override_price := None\<rparr>)
      | None \<Rightarrow> w)"
| "click (UpdatePrice new_price) w =
     (if manual_entry_disabled w then w
      else if new_price > 0 then
        emit (PriceFile new_price True)
          (w\<lparr>carbon_price := new_price, manual_override_price := Some new_price,
             selected_historic_date := None\<rparr>)
      else emit WarningBox w)"

text \<open>
  The sessions that can arise: the initial one, and every session after a click or a
  question in a session that can arise.
\<close>

inductive reachable :: "services \<Rightarrow> world \<Rightarrow> bool" for E :: services where
  start: "reachable E (init_session_state t)"
| clicked: "reachable E w \<Longrightarrow> reachable E (click a w)"
| asked: "reachable E w \<Longrightarrow> reachable E (ask E question w)"

section \<open>Observations on a run\<close>

text \<open>What a step from \<open>w\<close> to \<open>w'\<close> added to the trace, and the times at which requests were issued.\<close>

definition new_events :: "world \<Rightarrow> world \<Rightarrow> event list" where
  "new_events w w' = drop (length (trace w)) (trace w')"

fun request_times :: "event list \<Rightarrow> real list" where
  "request_times [] = []"
| "request_times (Request t model pr # es) = t # request_times es"
| "request_times (e # es) = request_times es"

fun llm_errors :: "event list \<Rightarrow> exn list" where
  "llm_errors [] = []"
| "llm_errors (ErrorBox LLMError e # es) = e # llm_errors es"
| "llm_errors (e # es) = llm_errors es"

text \<open>
  The retrieval result in the words of the specification: the texts of the matches in ranked
  order, a blank line between two of them, no apostrophe, at most 8000 characters; the file
  name of the top-ranked match, or "No source" when there is none.
\<close>

fun blank_separated :: "pystr list \<Rightarrow> pystr" where
  "blank_separated [] = []"
| "blank_separated (t # ts) = t @ concat (map (\<lambda>u. blank_line @ u) ts)"

definition retrieval_result :: "(pystr \<times> pystr) list \<Rightarrow> pystr \<times> pystr" where
  "retrieval_result results =
     (take 8000 (removeAll apostrophe (blank_separated (map fst results))),
      (if results = [] then str ''No source'' else snd (results ! 0)))"

text \<open>Services for concrete runs: out of order, answering, and answering with an empty text.\<close>

definition services_down :: services where
  "services_down =
     \<lparr>search_service = (\<lambda>q n. Inl (Exception (str ''unavailable''))),
      complete_service = (\<lambda>n model pr. (1, Inl (Exception (str ''timeout''))))\<rparr>"

definition services_up :: services where
  "services_up =
     \<lparr>search_service = (\<lambda>q n. Inr [(str ''It's due'', str ''cbam.pdf''), (str ''yearly'', str ''faq.pdf'')]),
      complete_service = (\<lambda>n model pr. (1, Inr (str ''See the guidance.'')))\<rparr>"

definition sample_prompt :: prompt where
  "sample_prompt =
     \<lparr>p_context = [], p_price = DEFAULT_CARBON_PRICE, p_history = [], p_question = str ''hi''\<rparr>"

definition services_mute :: services where
  "services_mute =
     \<lparr>search_service = (\<lambda>q n. Inr []),
      complete_service = (\<lambda>n model pr. (1, Inr []))\<rparr>"

section \<open>What a pattern matches\<close>

text \<open>
  The strings a pattern matches, with the groups they set: \<open>matches r u c c'\<close> says that \<open>r\<close>
  matches the string \<open>u\<close> and takes the groups \<open>c\<close> to \<open>c'\<close>. This is the meaning of the
  pattern, with no order among the ways to match; the matcher \<open>bt\<close> is compared with it.
\<close>

inductive matches :: "re \<Rightarrow> pystr \<Rightarrow> caps \<Rightarrow> caps \<Rightarrow> bool" where
  m_atom: "cmem cl x \<Longrightarrow> matches (Atom cl) [x] c c"
| m_eps: "matches Eps [] c c"
| m_seq: "matches a u c c1 \<Longrightarrow> matches b v c1 c' \<Longrightarrow> matches (Seq a b) (u @ v) c c'"
| m_alt_left: "matches a u c c' \<Longrightarrow> matches (Alt a b) u c c'"
| m_alt_right: "matches b u c c' \<Longrightarrow> matches (Alt a b) u c c'"
| m_star_stop: "matches (Star a) [] c c"
| m_star_step: "matches a u c c1 \<Longrightarrow> u \<noteq> [] \<Longrightarrow> matches (Star a) v c1 c' \<Longrightarrow>
                matches (Star a) (u @ v) c c'"
| m_lazy_stop: "matches (LazyStar a) [] c c"
| m_lazy_step: "matches a u c c1 \<Longrightarrow> u \<noteq> [] \<Longrightarrow> matches (LazyStar a) v c1 c' \<Longrightarrow>
                matches (LazyStar a) (u @ v) c c'"
| m_group: "matches a u c c' \<Longrightarrow> matches (Group n a) u c (c'(n := Some u))"

text \<open>The pattern has a match that starts at position \<open>i\<close> of the text.\<close>

definition occurs_at :: "re \<Rightarrow> pystr \<Rightarrow> nat \<Rightarrow> bool" where
  "occurs_at r text i =
     (i \<le> length text \<and> (\<exists>u v c'. drop i text = u @ v \<and> matches r u (\<lambda>n. None) c'))"

section \<open>The phrases of the classifier, in words\<close>

text \<open>Runs of characters: decimal digits, white space, a word.\<close>

definition digits :: "pystr \<Rightarrow> bool" where
  "digits s = (s \<noteq> [] \<and> list_all is_digit s)"

definition spaces :: "pystr \<Rightarrow> bool" where
  "spaces s = list_all is_space s"

definition word :: "pystr \<Rightarrow> bool" where
  "word s = (s \<noteq> [] \<and> list_all is_word s)"

text \<open>\<open>u\<close> reads as the literal \<open>cs\<close>, up to the case of its letters.\<close>

definition reads :: "string \<Rightarrow> pystr \<Rightarrow> bool" where
  "reads cs u = (map lower_cp u = map lower_cp (str cs))"

text \<open>An integer with optional thousands separators: digits, then groups of a comma and three digits.\<close>

definition thousands :: "pystr \<Rightarrow> bool" where
  "thousands ds =
     (\<exists>d gs. ds = d @ concat (map (\<lambda>g. 44 # g) gs) \<and> digits d
            \<and> list_all (\<lambda>g. length g = 3 \<and> list_all is_digit g) gs)"

text \<open>A number: digits, optionally followed by a point and digits.\<close>

definition number :: "pystr \<Rightarrow> bool" where
  "number n = (\<exists>i f. n = i @ f \<and> digits i \<and> (f = [] \<or> (\<exists>d. f = 46 # d \<and> digits d)))"

text \<open>
  What stands between the integer and the product: white space, "ton" or "tons" and white
  space; then optionally "of" and white space.
\<close>

definition tons :: "pystr \<Rightarrow> bool" where
  "tons gap =
     (\<exists>ws1 t s ws2. gap = ws1 @ t @ s @ ws2
        \<and> ws1 \<noteq> [] \<and> spaces ws1 \<and> reads ''ton'' t \<and> (s = [] \<or> reads ''s'' s)
        \<and> ws2 \<noteq> [] \<and> spaces ws2)"

definition of_word :: "pystr \<Rightarrow> bool" where
  "of_word f = (\<exists>f1 ws3. f = f1 @ ws3 \<and> reads ''of'' f1 \<and> ws3 \<noteq> [] \<and> spaces ws3)"

definition qty_phrase :: "pystr \<Rightarrow> pystr \<Rightarrow> pystr \<Rightarrow> bool" where
  "qty_phrase u ds w =
     (\<exists>gap f. u = ds @ gap @ f @ w \<and> thousands ds \<and> tons gap \<and> (f = [] \<or> of_word f) \<and> word w)"



text \<open>
  A keyword, text without a line break, optionally the euro sign, and a number.
\<close>

definition keyword :: "pystr \<Rightarrow> bool" where
  "keyword kw = (reads ''origin'' kw \<or> reads ''paid'' kw \<or> reads ''cost'' kw)"


section \<open>Fast-path eligibility as first stated\<close>

text \<open>
  The eligibility test in the words of the specification: both product and quantity were
  extracted, and declared emissions are present or the product is a key of the table of
  default emission factors.
\<close>

definition eligible_as_stated :: "parsed_request \<Rightarrow> bool" where
  "eligible_as_stated r =
     (product r \<noteq> None \<and> quantity r \<noteq> None
      \<and> (emissions r \<noteq> None \<or> (\<exists>p. product r = Some p \<and> dict_get DEFAULT_EMISSIONS p \<noteq> None)))"

section \<open>The normalized form of a request\<close>

text \<open>
  The normalized form of a fully populated request, after the example of the specification,
  "120 tons of steel, 2.3 tCO2e, origin E10" (with the euro sign for E): the quantity, the
  declared emissions and the origin price are written as decimal numerals.
\<close>

definition normalized :: "pystr \<Rightarrow> pystr \<Rightarrow> pystr \<Rightarrow> pystr \<Rightarrow> pystr" where
  "normalized p qs en on =
     qs @ str '' tons of '' @ p @ str '', '' @ en @ str '' tCO2e, origin '' @ [euro] @ on"

text \<open>
  The text begins with a keyword of the origin pattern, and: some part of the text reads as
  a keyword.
\<close>

definition keyword_here :: "pystr \<Rightarrow> bool" where
  "keyword_here s =
     (reads ''origin'' (take 6 s) \<or> reads ''paid'' (take 4 s) \<or> reads ''cost'' (take 4 s))"

fun mentions_keyword :: "pystr \<Rightarrow> bool" where
  "mentions_keyword [] = False"
| "mentions_keyword (x # xs) = (keyword_here (x # xs) \<or> mentions_keyword xs)"

text \<open>
  A product name for which the normalized form reads back: a word of lower-case letters and
  underscores, no part of which reads "origin", "paid" or "cost".
\<close>

definition plain_product :: "pystr \<Rightarrow> bool" where
  "plain_product p =
     (p \<noteq> [] \<and> list_all (\<lambda>x. (97 \<le> x \<and> x \<le> 122) \<or> x = 95) p \<and> \<not> mentions_keyword p)"

section \<open>The match that each pattern takes\<close>









section \<open>The emissions and origin phrases as first stated\<close>



section \<open>Properties of the cost calculator\<close>

lemma calculate_cbam_cost_v1_formula:
  "calculate_cbam_cost_v1 sp e origin (Some eu) = max 0 (e * (eu - origin))"
  by (simp add: calculate_cbam_cost_v1_def)

lemma calculate_cbam_cost_positive_price:
  "eu \<noteq> 0 \<Longrightarrow> calculate_cbam_cost sp e origin (Some eu) = max 0 (e * (eu - origin))"
  by (simp add: calculate_cbam_cost_def py_or_def)

text \<open>
  Claim C1. For non-negative emissions and prices passed explicitly, the calculator is said
  to return \<open>max(0, totalEmissions \<times> (euPrice - originPrice))\<close>, hence zero whenever the EU
  price does not exceed the origin price. The first variant does so, and the second does so
  for every non-zero EU price; but the second variant replaces an explicit EU price of
  \<open>0.0\<close> by the session price: with one tonne of emissions, origin price 0, explicit EU
  price 0 and a session price of 78.54 the formula gives 0 and the code returns 78.54.
\<close>

theorem calculate_cbam_cost_explicit_zero_price:
  "calculate_cbam_cost 78.54 1 0 (Some 0) = 78.54
   \<and> max (0::real) (1 * (0 - 0)) = 0
   \<and> calculate_cbam_cost_v1 78.54 1 0 (Some 0) = 0"
  by (simp add: calculate_cbam_cost_def calculate_cbam_cost_v1_def py_or_def)

text \<open>
  Claim C10. In the second variant an explicitly passed \<open>eu_price\<close> of \<open>0.0\<close> is treated
  like an omitted one: the session's carbon price is substituted, the returned cost is
  \<open>max(0, embedded_emissions \<times> (sessionPrice - origin_price))\<close>, and this cost can be
  strictly positive.
\<close>

theorem calculate_cbam_cost_zero_is_omitted:
  "calculate_cbam_cost sp e origin (Some 0) = calculate_cbam_cost sp e origin None
   \<and> calculate_cbam_cost sp e origin (Some 0) = max 0 (e * (sp - origin))
   \<and> 0 < calculate_cbam_cost DEFAULT_CARBON_PRICE 230 0 (Some 0)"
  by (simp add: calculate_cbam_cost_def py_or_def DEFAULT_CARBON_PRICE_def)

section \<open>Frame lemmas\<close>

lemma emit_fields [simp]:
  "messages (emit e w) = messages w"
  "last_request_time (emit e w) = last_request_time w"
  "carbon_price (emit e w) = carbon_price w"
  "selected_historic_date (emit e w) = selected_historic_date w"
  "manual_override_price (emit e w) = manual_override_price w"
  "clock (emit e w) = clock w"
  "calls (emit e w) = calls w"
  "trace (emit e w) = trace w @ [e]"
  by (simp_all add: emit_def)

lemma sleep_fields [simp]:
  "messages (sleep d w) = messages w"
  "last_request_time (sleep d w) = last_request_time w"
  "carbon_price (sleep d w) = carbon_price w"
  "selected_historic_date (sleep d w) = selected_historic_date w"
  "manual_override_price (sleep d w) = manual_override_price w"
  "clock (sleep d w) = clock w + d"
  "calls (sleep d w) = calls w"
  "trace (sleep d w) = trace w @ [Sleep d]"
  by (simp_all add: sleep_def)

lemma new_events_append [simp]: "trace w' = trace w @ es \<Longrightarrow> new_events w w' = es"
  by (simp add: new_events_def)

lemma new_events_refl [simp]: "new_events w w = []"
  by (simp add: new_events_def)

lemma request_times_append [simp]:
  "request_times (es @ fs) = request_times es @ request_times fs"
  by (induction es rule: request_times.induct) simp_all

lemma llm_errors_append [simp]: "llm_errors (es @ fs) = llm_errors es @ llm_errors fs"
  by (induction es rule: llm_errors.induct) simp_all

lemma call_complete_fields:
  assumes "call_complete E model pr w = (out, w1)"
  shows "messages w1 = messages w"
    and "last_request_time w1 = last_request_time w"
    and "carbon_price w1 = carbon_price w"
    and "selected_historic_date w1 = selected_historic_date w"
    and "manual_override_price w1 = manual_override_price w"
    and "clock w1 = clock w + fst (complete_service E (calls w) model pr)"
    and "calls w1 = calls w + 1"
    and "trace w1 = trace w @ [Request (clock w) model pr]"
  using assms by (auto simp: call_complete_def split: prod.splits)

lemma call_complete_outcome:
  "call_complete E model pr w = (out, w1) \<Longrightarrow> out = snd (complete_service E (calls w) model pr)"
  by (auto simp: call_complete_def split: prod.splits)

lemma llm_attempts_done:
  "\<not> attempt < retries \<Longrightarrow> llm_attempts E model pr retries attempt w = (None, w)"
  by (simp add: llm_attempts.simps)

lemma llm_attempts_success:
  "attempt < retries \<Longrightarrow> call_complete E model pr w = (Inr resp, w1) \<Longrightarrow>
   llm_attempts E model pr retries attempt w = (Some resp, w1\<lparr>last_request_time := clock w1\<rparr>)"
  by (simp add: llm_attempts.simps)

lemma llm_attempts_retry:
  "attempt < retries \<Longrightarrow> call_complete E model pr w = (Inl e, w1) \<Longrightarrow> attempt < retries - 1 \<Longrightarrow>
   llm_attempts E model pr retries attempt w =
     llm_attempts E model pr retries (attempt + 1) (sleep (RETRY_DELAY * (real attempt + 1)) w1)"
  by (simp add: llm_attempts.simps)

lemma llm_attempts_give_up:
  "attempt < retries \<Longrightarrow> call_complete E model pr w = (Inl e, w1) \<Longrightarrow> \<not> attempt < retries - 1 \<Longrightarrow>
   llm_attempts E model pr retries attempt w = (None, emit (ErrorBox LLMError e) w1)"
  by (simp add: llm_attempts.simps)

text \<open>
  Case analysis of one iteration of the retry loop: the shape every proof about
  \<open>llm_attempts\<close> follows.
\<close>

lemma llm_attempts_cases:
  assumes "llm_attempts E model pr retries attempt w = (res, w')"
  obtains
    (exhausted) "\<not> attempt < retries" "res = None" "w' = w"
  | (success) resp w1 where "attempt < retries" "call_complete E model pr w = (Inr resp, w1)"
      "res = Some resp" "w' = w1\<lparr>last_request_time := clock w1\<rparr>"
  | (retry) e w1 where "attempt < retries" "call_complete E model pr w = (Inl e, w1)"
      "attempt < retries - 1"
      "llm_attempts E model pr retries (attempt + 1) (sleep (RETRY_DELAY * (real attempt + 1)) w1) = (res, w')"
  | (give_up) e w1 where "attempt < retries" "call_complete E model pr w = (Inl e, w1)"
      "\<not> attempt < retries - 1" "res = None" "w' = emit (ErrorBox LLMError e) w1"
proof (cases "attempt < retries")
  case False
  with assms that(1) show ?thesis by (simp add: llm_attempts_done)
next
  case True
  obtain out w1 where cc: "call_complete E model pr w = (out, w1)" by force
  show ?thesis
  proof (cases out)
    case (Inr resp)
    with assms True cc that(2) show ?thesis by (simp add: llm_attempts_success)
  next
    case (Inl e)
    show ?thesis
    proof (cases "attempt < retries - 1")
      case False
      with assms True cc Inl that(4) show ?thesis by (simp add: llm_attempts_give_up)
    next
      case t: True
      with assms True cc Inl that(3) show ?thesis by (simp add: llm_attempts_retry)
    qed
  qed
qed

lemma llm_attempts_frame:
  "llm_attempts E model pr retries attempt w = (res, w') \<Longrightarrow>
     messages w' = messages w \<and> carbon_price w' = carbon_price w
     \<and> selected_historic_date w' = selected_historic_date w
     \<and> manual_override_price w' = manual_override_price w"
proof (induction E model pr retries attempt w rule: llm_attempts.induct)
  case (1 E model pr retries attempt w)
  from "1.prems" show ?case
  proof (cases rule: llm_attempts_cases)
    case exhausted
    then show ?thesis by simp
  next
    case (success resp w1)
    with call_complete_fields[OF success(2)] show ?thesis by simp
  next
    case (retry e w1)
    from "1.IH"[OF retry(1) retry(2)[symmetric] _ retry(3) retry(4)] call_complete_fields[OF retry(2)]
    show ?thesis by simp
  next
    case (give_up e w1)
    with call_complete_fields[OF give_up(2)] show ?thesis by simp
  qed
qed

lemma throttle_fields [simp]:
  "messages (throttle w) = messages w"
  "last_request_time (throttle w) = last_request_time w"
  "carbon_price (throttle w) = carbon_price w"
  "selected_historic_date (throttle w) = selected_historic_date w"
  "manual_override_price (throttle w) = manual_override_price w"
  "calls (throttle w) = calls w"
  by (simp_all add: throttle_def Let_def)

lemma llm_complete_frame:
  "llm_complete E model pr retries w = (res, w') \<Longrightarrow>
     messages w' = messages w \<and> carbon_price w' = carbon_price w
     \<and> selected_historic_date w' = selected_historic_date w
     \<and> manual_override_price w' = manual_override_price w"
  unfolding llm_complete_def by (auto dest!: llm_attempts_frame)

lemma cortex_search_frame:
  "cortex_search E q w = (res, w') \<Longrightarrow>
     messages w' = messages w \<and> carbon_price w' = carbon_price w
     \<and> selected_historic_date w' = selected_historic_date w
     \<and> manual_override_price w' = manual_override_price w
     \<and> last_request_time w' = last_request_time w \<and> clock w' = clock w \<and> calls w' = calls w"
  by (auto simp: cortex_search_def Let_def split: sum.splits)

lemma build_prompt_frame:
  "build_prompt E q w = (res, w') \<Longrightarrow>
     messages w' = messages w \<and> carbon_price w' = carbon_price w
     \<and> selected_historic_date w' = selected_historic_date w
     \<and> manual_override_price w' = manual_override_price w
     \<and> last_request_time w' = last_request_time w \<and> clock w' = clock w \<and> calls w' = calls w"
  by (auto simp: build_prompt_def Let_def split: prod.splits dest!: cortex_search_frame)

lemma documentation_answer_price:
  "carbon_price (documentation_answer E q w) = carbon_price w
   \<and> selected_historic_date (documentation_answer E q w) = selected_historic_date w
   \<and> manual_override_price (documentation_answer E q w) = manual_override_price w"
  by (auto simp: documentation_answer_def Let_def split: prod.splits option.splits
           dest!: build_prompt_frame llm_complete_frame)

lemma quick_calculation_price:
  "quick_calculation r w = Inr (Some w') \<Longrightarrow>
   carbon_price w' = carbon_price w
   \<and> selected_historic_date w' = selected_historic_date w
   \<and> manual_override_price w' = manual_override_price w"
  by (auto simp: quick_calculation_def Let_def split: if_splits option.splits sum.splits)

lemma post_question_fields [simp]:
  "messages (post_question q w) = messages w @ [(User, Text q)]"
  "last_request_time (post_question q w) = last_request_time w"
  "carbon_price (post_question q w) = carbon_price w"
  "selected_historic_date (post_question q w) = selected_historic_date w"
  "manual_override_price (post_question q w) = manual_override_price w"
  "clock (post_question q w) = clock w"
  "calls (post_question q w) = calls w"
  "trace (post_question q w) = trace w @ [Markdown User (Text q)]"
  by (simp_all add: post_question_def)

lemma ask_price:
  "carbon_price (ask E q w) = carbon_price w
   \<and> selected_historic_date (ask E q w) = selected_historic_date w
   \<and> manual_override_price (ask E q w) = manual_override_price w"
  by (auto simp: ask_def Let_def documentation_answer_price split: option.splits sum.splits
           dest!: quick_calculation_price)

section \<open>Price controls: manual override and historic selection exclude each other\<close>

lemma click_exclusive:
  "\<not> (manual_override_price w \<noteq> None \<and> selected_historic_date w \<noteq> None) \<Longrightarrow>
   \<not> (manual_override_price (click a w) \<noteq> None \<and> selected_historic_date (click a w) \<noteq> None)"
  by (cases a) (auto simp: manual_entry_disabled_def split: option.splits)

lemma reachable_exclusive:
  "reachable E w \<Longrightarrow> \<not> (manual_override_price w \<noteq> None \<and> selected_historic_date w \<noteq> None)"
proof (induction rule: reachable.induct)
  case (start t)
  show ?case by (simp add: init_session_state_def)
next
  case (clicked w a)
  then show ?case using click_exclusive by blast
next
  case (asked w question)
  then show ?case by (simp add: ask_price)
qed

text \<open>
  Claim C8. In every session that can arise, the manual override and the historic selection
  are not both active, and every price action keeps it so: selecting a historic date stores
  the date and clears the manual override; committing a manual price stores it and clears the
  historic selection; reset clears both; a rejected manual entry (a value that is not
  positive) changes nothing of the session but for the warning shown; and while a historic
  date is active the manual entry is disabled, so that a click on it changes nothing.
\<close>

theorem price_controls_exclusive:
  assumes "reachable E w"
  shows "\<not> (manual_override_price w \<noteq> None \<and> selected_historic_date w \<noteq> None)
    \<and> (\<forall>a. \<not> (manual_override_price (click a w) \<noteq> None \<and> selected_historic_date (click a w) \<noteq> None))
    \<and> (\<forall>date price. dict_get RECENT_PRICES date = Some price \<longrightarrow>
          selected_historic_date (click (SelectHistoric date) w) = Some date
          \<and> manual_override_price (click (SelectHistoric date) w) = None
          \<and> carbon_price (click (SelectHistoric date) w) = price)
    \<and> (\<forall>v. \<not> manual_entry_disabled w \<and> 0 < v \<longrightarrow>
          manual_override_price (click (UpdatePrice v) w) = Some v
          \<and> selected_historic_date (click (UpdatePrice v) w) = None
          \<and> carbon_price (click (UpdatePrice v) w) = v)
    \<and> manual_override_price (click Reset w) = None
    \<and> selected_historic_date (click Reset w) = None
    \<and> (\<forall>v. v \<le> 0 \<longrightarrow>
          click (UpdatePrice v) w = w\<lparr>trace := trace (click (UpdatePrice v) w)\<rparr>
          \<and> (\<not> manual_entry_disabled w \<longrightarrow> trace (click (UpdatePrice v) w) = trace w @ [WarningBox]))
    \<and> (selected_historic_date w \<noteq> None \<longrightarrow>
          manual_entry_disabled w \<and> (\<forall>v. click (UpdatePrice v) w = w))"
proof -
  have inv: "\<not> (manual_override_price w \<noteq> None \<and> selected_historic_date w \<noteq> None)"
    using assms by (rule reachable_exclusive)
  have step: "\<forall>a. \<not> (manual_override_price (click a w) \<noteq> None \<and> selected_historic_date (click a w) \<noteq> None)"
    using click_exclusive[OF inv] by blast
  have hist: "\<forall>date price. dict_get RECENT_PRICES date = Some price \<longrightarrow>
          selected_historic_date (click (SelectHistoric date) w) = Some date
          \<and> manual_override_price (click (SelectHistoric date) w) = None
          \<and> carbon_price (click (SelectHistoric date) w) = price"
    by simp
  have man: "\<forall>v. \<not> manual_entry_disabled w \<and> 0 < v \<longrightarrow>
          manual_override_price (click (UpdatePrice v) w) = Some v
          \<and> selected_historic_date (click (UpdatePrice v) w) = None
          \<and> carbon_price (click (UpdatePrice v) w) = v"
    by simp
  have reset: "manual_override_price (click Reset w) = None \<and> selected_historic_date (click Reset w) = None"
    by (simp add: reset_rendered_def)
  have rej: "\<forall>v. v \<le> 0 \<longrightarrow>
          click (UpdatePrice v) w = w\<lparr>trace := trace (click (UpdatePrice v) w)\<rparr>
          \<and> (\<not> manual_entry_disabled w \<longrightarrow> trace (click (UpdatePrice v) w) = trace w @ [WarningBox])"
    by (simp add: emit_def)
  have dis: "selected_historic_date w \<noteq> None \<longrightarrow>
          manual_entry_disabled w \<and> (\<forall>v. click (UpdatePrice v) w = w)"
    by (simp add: manual_entry_disabled_def)
  from inv step hist man reset rej dis show ?thesis by blast
qed

theorem price_controls_exclusive_witness:
  "reachable services_up (click (SelectHistoric (str ''2025-10-01'')) (init_session_state 0))
   \<and> selected_historic_date (click (SelectHistoric (str ''2025-10-01'')) (init_session_state 0))
       = Some (str ''2025-10-01'')
   \<and> manual_override_price (click (UpdatePrice 50)
        (click (SelectHistoric (str ''2025-10-01'')) (init_session_state 0))) = None
   \<and> click (UpdatePrice 50) (click (SelectHistoric (str ''2025-10-01'')) (init_session_state 0))
       = click (SelectHistoric (str ''2025-10-01'')) (init_session_state 0)
   \<and> selected_historic_date (click Reset
        (click (SelectHistoric (str ''2025-10-01'')) (init_session_state 0))) = None"
proof -
  let ?w = "click (SelectHistoric (str ''2025-10-01'')) (init_session_state 0)"
  have r: "reachable services_up ?w"
    by (intro reachable.intros)
  have s: "selected_historic_date ?w = Some (str ''2025-10-01'')"
    by (simp add: dict_get_def RECENT_PRICES_def str_def)
  from price_controls_exclusive[OF r] s r show ?thesis
    by (metis option.distinct(1))
qed

section \<open>Context retriever\<close>

lemma join_Cons: "join sep (x # xs) = x @ concat (map (\<lambda>u. sep @ u) xs)"
  by (induction xs arbitrary: x) simp_all

lemma join_blank_separated: "join blank_line ts = blank_separated ts"
  by (cases ts) (simp_all add: join_Cons)

lemma filter_apostrophe: "filter (\<lambda>x. x \<noteq> apostrophe) s = removeAll apostrophe s"
  by (induction s) auto

lemma llm_attempts_calls:
  "llm_attempts E model pr retries attempt w = (res, w') \<Longrightarrow> attempt < retries \<Longrightarrow> calls w < calls w'"
proof (induction E model pr retries attempt w rule: llm_attempts.induct)
  case (1 E model pr retries attempt w)
  from "1.prems"(1) show ?case
  proof (cases rule: llm_attempts_cases)
    case exhausted
    with "1.prems"(2) show ?thesis by simp
  next
    case (success resp w1)
    with call_complete_fields[OF success(2)] show ?thesis by simp
  next
    case (retry e w1)
    from retry(3) have "attempt + 1 < retries" by simp
    from "1.IH"[OF retry(1) retry(2)[symmetric] _ retry(3) retry(4) this]
      call_complete_fields[OF retry(2)]
    show ?thesis by simp
  next
    case (give_up e w1)
    with call_complete_fields[OF give_up(2)] show ?thesis by simp
  qed
qed

lemma documentation_answer_calls: "calls w < calls (documentation_answer E q w)"
proof -
  obtain pr src w1 where bp: "build_prompt E q w = ((pr, src), w1)"
    by (metis surj_pair)
  obtain answer w2 where lc: "llm_complete E MODEL_NAME pr 2 w1 = (answer, w2)"
    by force
  from lc have "calls w1 < calls w2"
    unfolding llm_complete_def using llm_attempts_calls[of E MODEL_NAME pr 2 0 "throttle w1" answer w2]
    by simp
  moreover from build_prompt_frame[OF bp] have "calls w1 = calls w" by simp
  moreover have "calls (documentation_answer E q w) = calls w2"
    using bp lc by (simp add: documentation_answer_def split: option.splits)
  ultimately show ?thesis by simp
qed

text \<open>
  Claim C4. For every question and every list of matches that the search returns,
  \<open>cortex_search\<close> returns as context the texts of the matches in ranked order with a blank
  line between them, without any apostrophe, cut to the first 8000 characters (so the
  context has at most 8000 characters and no apostrophe), and as source the file name of the
  top-ranked match, or "No source" when there is no match. When the search raises, it shows
  the error and returns the empty context with the source "Error"; nothing is propagated:
  the prompt is built with the empty context and the completion service is called.
\<close>

theorem cortex_search_retrieval:
  assumes "cortex_search E q w = (res, w')"
  shows "(\<forall>results. search_service E q NUM_RESULTS = Inr results \<longrightarrow>
            res = retrieval_result results
            \<and> length (fst res) \<le> 8000 \<and> apostrophe \<notin> set (fst res)
            \<and> new_events w w' = [Search q NUM_RESULTS])
       \<and> (\<forall>e. search_service E q NUM_RESULTS = Inl e \<longrightarrow>
            res = ([], str ''Error'')
            \<and> new_events w w' = [Search q NUM_RESULTS, ErrorBox SearchError e]
            \<and> p_context (fst (fst (build_prompt E q w))) = []
            \<and> snd (fst (build_prompt E q w)) = str ''Error''
            \<and> calls w < calls (documentation_answer E q w))"
proof (intro conjI allI impI)
  fix results
  assume ok: "search_service E q NUM_RESULTS = Inr results"
  have src: "(case results of [] \<Rightarrow> str ''No source'' | r # _ \<Rightarrow> snd r)
             = (if results = [] then str ''No source'' else snd (results ! 0))"
    by (cases results) simp_all
  from assms ok show "res = retrieval_result results"
    by (auto simp: cortex_search_def retrieval_result_def Let_def join_blank_separated
                   filter_apostrophe src)
  then show "length (fst res) \<le> 8000" and "apostrophe \<notin> set (fst res)"
    by (auto simp: retrieval_result_def dest: in_set_takeD)
  from assms ok show "new_events w w' = [Search q NUM_RESULTS]"
    by (auto simp: cortex_search_def Let_def)
next
  fix e
  assume ko: "search_service E q NUM_RESULTS = Inl e"
  from assms ko show "res = ([], str ''Error'')"
    and "new_events w w' = [Search q NUM_RESULTS, ErrorBox SearchError e]"
    by (auto simp: cortex_search_def Let_def)
  from ko show "p_context (fst (fst (build_prompt E q w))) = []"
    and "snd (fst (build_prompt E q w)) = str ''Error''"
    by (simp_all add: build_prompt_def cortex_search_def Let_def)
  show "calls w < calls (documentation_answer E q w)"
    by (rule documentation_answer_calls)
qed

theorem cortex_search_retrieval_witness:
  "cortex_search services_up (str ''when'') (init_session_state 0)
     = ((str ''Its due'' @ [10, 10] @ str ''yearly'', str ''cbam.pdf''),
        emit (Search (str ''when'') NUM_RESULTS) (init_session_state 0))
   \<and> fst (cortex_search services_down (str ''when'') (init_session_state 0)) = ([], str ''Error'')
   \<and> fst (cortex_search services_mute (str ''when'') (init_session_state 0)) = ([], str ''No source'')"
proof -
  obtain res w' where up: "cortex_search services_up (str ''when'') (init_session_state 0) = (res, w')"
    by (rule prod.exhaust)
  obtain res2 w2 where down: "cortex_search services_down (str ''when'') (init_session_state 0) = (res2, w2)"
    by (rule prod.exhaust)
  obtain res3 w3 where mute: "cortex_search services_mute (str ''when'') (init_session_state 0) = (res3, w3)"
    by (rule prod.exhaust)
  have w': "w' = emit (Search (str ''when'') NUM_RESULTS) (init_session_state 0)"
    using up by (auto simp: cortex_search_def services_up_def Let_def)
  from cortex_search_retrieval[OF up]
  have "res = retrieval_result [(str ''It's due'', str ''cbam.pdf''), (str ''yearly'', str ''faq.pdf'')]"
    by (simp add: services_up_def)
  then have r1: "res = (str ''Its due'' @ [10, 10] @ str ''yearly'', str ''cbam.pdf'')"
    by (simp add: retrieval_result_def str_def apostrophe_def blank_line_def)
  from cortex_search_retrieval[OF down] have r2: "res2 = ([], str ''Error'')"
    by (simp add: services_down_def)
  from cortex_search_retrieval[OF mute] have r3: "res3 = ([], str ''No source'')"
    by (simp add: services_mute_def retrieval_result_def)
  from up down mute w' r1 r2 r3 show ?thesis by simp
qed

section \<open>Completion client: retries\<close>

lemma llm_attempts_trace:
  "llm_attempts E model pr retries attempt w = (res, w') \<Longrightarrow>
   \<exists>es. trace w' = trace w @ es
        \<and> calls w' = calls w + length (request_times es)
        \<and> length (request_times es) \<le> retries - attempt
        \<and> length (llm_errors es) = (if res = None \<and> attempt < retries then 1 else 0)"
proof (induction E model pr retries attempt w rule: llm_attempts.induct)
  case (1 E model pr retries attempt w)
  from "1.prems"(1) show ?case
  proof (cases rule: llm_attempts_cases)
    case exhausted
    then show ?thesis by simp
  next
    case (success resp w1)
    with call_complete_fields[OF success(2)] show ?thesis by simp
  next
    case (retry e w1)
    from "1.IH"[OF retry(1) retry(2)[symmetric] _ retry(3) retry(4)]
    obtain es where es: "trace w' = trace (sleep (RETRY_DELAY * (real attempt + 1)) w1) @ es"
      "calls w' = calls (sleep (RETRY_DELAY * (real attempt + 1)) w1) + length (request_times es)"
      "length (request_times es) \<le> retries - (attempt + 1)"
      "length (llm_errors es) = (if res = None \<and> attempt + 1 < retries then 1 else 0)"
      by auto
    let ?es = "Request (clock w) model pr # Sleep (RETRY_DELAY * (real attempt + 1)) # es"
    from es call_complete_fields[OF retry(2)] retry(1,3)
    have "trace w' = trace w @ ?es \<and> calls w' = calls w + length (request_times ?es)
        \<and> length (request_times ?es) \<le> retries - attempt
        \<and> length (llm_errors ?es) = (if res = None \<and> attempt < retries then 1 else 0)"
      by auto
    then show ?thesis by blast
  next
    case (give_up e w1)
    with call_complete_fields[OF give_up(2)] show ?thesis by simp
  qed
qed

lemma throttle_trace: "\<exists>ss. trace (throttle w) = trace w @ ss \<and> request_times ss = [] \<and> llm_errors ss = []"
  by (simp add: throttle_def Let_def)

text \<open>
  Claim C6. For every model and prompt, the completion client makes at most \<open>retries\<close>
  calls of the completion service, hence at most 2 with \<open>retries = 2\<close>. After a failed attempt
  that is not the last one it sleeps \<open>RETRY_DELAY \<times> attemptNumber\<close> before the next attempt,
  the attempts being numbered from 1 (so 5 after the first, 10 after the second). When the
  last attempt fails it shows exactly one error and returns \<open>None\<close>; a call that returns an
  answer shows no error. With \<open>retries = 2\<close> and two failing calls the client does exactly
  this, after the throttle wait: request, sleep 5, request, error box.
\<close>

theorem llm_complete_retry_policy:
  assumes "llm_complete E model pr retries w = (res, w')"
  shows "calls w' \<le> calls w + retries
       \<and> length (request_times (new_events w w')) \<le> retries
       \<and> length (llm_errors (new_events w w')) = (if res = None \<and> 0 < retries then 1 else 0)
       \<and> (\<forall>attempt v e v1 res1 v'.
             attempt < retries - 1 \<and> call_complete E model pr v = (Inl e, v1)
             \<and> llm_attempts E model pr retries attempt v = (res1, v') \<longrightarrow>
             (\<exists>rest. new_events v v'
                = Request (clock v) model pr # Sleep (RETRY_DELAY * real (attempt + 1)) # rest))
       \<and> (\<forall>d1 e1 d2 e2.
             retries = 2 \<and> complete_service E (calls w) model pr = (d1, Inl e1)
             \<and> complete_service E (calls w + 1) model pr = (d2, Inl e2) \<longrightarrow>
             res = None
             \<and> new_events (throttle w) w'
                = [Request (clock (throttle w)) model pr, Sleep 5,
                   Request (clock (throttle w) + d1 + 5) model pr, ErrorBox LLMError e2])"
proof -
  from assms have la: "llm_attempts E model pr retries 0 (throttle w) = (res, w')"
    by (simp add: llm_complete_def)
  from llm_attempts_trace[OF la] obtain es where es:
    "trace w' = trace (throttle w) @ es" "calls w' = calls w + length (request_times es)"
    "length (request_times es) \<le> retries"
    "length (llm_errors es) = (if res = None \<and> 0 < retries then 1 else 0)"
    by auto
  from throttle_trace obtain ss where ss:
    "trace (throttle w) = trace w @ ss" "request_times ss = []" "llm_errors ss = []"
    by blast
  from es ss have ne: "new_events w w' = ss @ es" by simp
  have a: "calls w' \<le> calls w + retries" using es by simp
  have b: "length (request_times (new_events w w')) \<le> retries" using ne es ss by simp
  have c: "length (llm_errors (new_events w w')) = (if res = None \<and> 0 < retries then 1 else 0)"
    using ne es ss by simp
  have d: "\<forall>attempt v e v1 res1 v'.
             attempt < retries - 1 \<and> call_complete E model pr v = (Inl e, v1)
             \<and> llm_attempts E model pr retries attempt v = (res1, v') \<longrightarrow>
             (\<exists>rest. new_events v v'
                = Request (clock v) model pr # Sleep (RETRY_DELAY * real (attempt + 1)) # rest)"
  proof (intro allI impI)
    fix attempt v e v1 res1 v'
    assume h: "attempt < retries - 1 \<and> call_complete E model pr v = (Inl e, v1)
             \<and> llm_attempts E model pr retries attempt v = (res1, v')"
    then have lt: "attempt < retries" by linarith
    from h llm_attempts_retry[OF lt _ _, of E model pr v e v1]
    have "llm_attempts E model pr retries (attempt + 1) (sleep (RETRY_DELAY * (real attempt + 1)) v1) = (res1, v')"
      by simp
    from llm_attempts_trace[OF this] obtain rest where
      "trace v' = trace (sleep (RETRY_DELAY * (real attempt + 1)) v1) @ rest" by blast
    with h call_complete_fields(8)[of E model pr v "Inl e" v1]
    have "trace v' = trace v @ (Request (clock v) model pr # Sleep (RETRY_DELAY * real (attempt + 1)) # rest)"
      by (simp add: add.commute)
    then show "\<exists>rest. new_events v v'
                = Request (clock v) model pr # Sleep (RETRY_DELAY * real (attempt + 1)) # rest"
      by simp
  qed
  have e: "\<forall>d1 e1 d2 e2.
             retries = 2 \<and> complete_service E (calls w) model pr = (d1, Inl e1)
             \<and> complete_service E (calls w + 1) model pr = (d2, Inl e2) \<longrightarrow>
             res = None
             \<and> new_events (throttle w) w'
                = [Request (clock (throttle w)) model pr, Sleep 5,
                   Request (clock (throttle w) + d1 + 5) model pr, ErrorBox LLMError e2]"
  proof (intro allI impI)
    fix d1 e1 d2 e2
    assume h: "retries = 2 \<and> complete_service E (calls w) model pr = (d1, Inl e1)
             \<and> complete_service E (calls w + 1) model pr = (d2, Inl e2)"
    let ?t = "throttle w"
    let ?w1 = "(emit (Request (clock ?t) model pr) ?t)\<lparr>clock := clock ?t + d1, calls := calls ?t + 1\<rparr>"
    let ?w2 = "sleep (RETRY_DELAY * (real 0 + 1)) ?w1"
    let ?w3 = "(emit (Request (clock ?w2) model pr) ?w2)\<lparr>clock := clock ?w2 + d2, calls := calls ?w2 + 1\<rparr>"
    from h have c1: "call_complete E model pr ?t = (Inl e1, ?w1)"
      by (simp add: call_complete_def)
    from h have c2: "call_complete E model pr ?w2 = (Inl e2, ?w3)"
      by (simp add: call_complete_def)
    from h have "llm_attempts E model pr retries 0 ?t = llm_attempts E model pr retries (0 + 1) ?w2"
      using llm_attempts_retry[of 0 retries E model pr ?t e1 ?w1] c1 by simp
    also from h have "\<dots> = (None, emit (ErrorBox LLMError e2) ?w3)"
      using llm_attempts_give_up[of "0 + 1" retries E model pr ?w2 e2 ?w3] c2 by simp
    finally have "res = None" and w': "w' = emit (ErrorBox LLMError e2) ?w3"
      using la by simp_all
    moreover have "trace (emit (ErrorBox LLMError e2) ?w3) = trace ?t @ [Request (clock ?t) model pr, Sleep 5,
                   Request (clock ?t + d1 + 5) model pr, ErrorBox LLMError e2]"
      by (simp add: RETRY_DELAY_def)
    ultimately show "res = None
             \<and> new_events (throttle w) w'
                = [Request (clock (throttle w)) model pr, Sleep 5,
                   Request (clock (throttle w) + d1 + 5) model pr, ErrorBox LLMError e2]"
      by simp
  qed
  from a b c d e show ?thesis by blast
qed

theorem llm_complete_retry_policy_witness:
  "fst (llm_complete services_down MODEL_NAME sample_prompt 2 (init_session_state 100)) = None
   \<and> new_events (init_session_state 100)
         (snd (llm_complete services_down MODEL_NAME sample_prompt 2 (init_session_state 100)))
       = [Request 100 MODEL_NAME sample_prompt, Sleep 5,
          Request 106 MODEL_NAME sample_prompt,
          ErrorBox LLMError (Exception (str ''timeout''))]"
proof -
  obtain res w' where
    lc: "llm_complete services_down MODEL_NAME sample_prompt 2 (init_session_state 100) = (res, w')"
    by (rule prod.exhaust)
  have t: "throttle (init_session_state 100) = init_session_state 100"
    by (simp add: throttle_def init_session_state_def MIN_REQUEST_INTERVAL_def)
  have c: "clock (init_session_state 100) = 100"
    by (simp add: init_session_state_def)
  from llm_complete_retry_policy[OF lc] have
    "res = None \<and> new_events (init_session_state 100) w'
       = [Request 100 MODEL_NAME sample_prompt, Sleep 5,
          Request 106 MODEL_NAME sample_prompt,
          ErrorBox LLMError (Exception (str ''timeout''))]"
    by (simp add: services_down_def t c)
  with lc show ?thesis by simp
qed

section \<open>Completion client: throttle\<close>

lemma llm_attempts_times:
  "\<forall>n model pr. 0 \<le> fst (complete_service E n model pr) \<Longrightarrow>
   llm_attempts E model pr retries attempt w = (res, w') \<Longrightarrow>
     \<exists>es. trace w' = trace w @ es
        \<and> (\<forall>t \<in> set (request_times es). clock w \<le> t \<and> t \<le> clock w')
        \<and> clock w \<le> clock w'
        \<and> (res = None \<longrightarrow> last_request_time w' = last_request_time w)
        \<and> (res \<noteq> None \<longrightarrow> last_request_time w' = clock w')"
proof (induction E model pr retries attempt w rule: llm_attempts.induct)
  case (1 E model pr retries attempt w)
  have d: "0 \<le> fst (complete_service E (calls w) model pr)"
    using "1.prems"(1) by blast
  from "1.prems"(2) show ?case
  proof (cases rule: llm_attempts_cases)
    case exhausted
    then show ?thesis by simp
  next
    case (success resp w1)
    with call_complete_fields[OF success(2)] d show ?thesis by simp
  next
    case (retry e w1)
    let ?s = "sleep (RETRY_DELAY * (real attempt + 1)) w1"
    from "1.IH"[OF retry(1) retry(2)[symmetric] _ retry(3) "1.prems"(1) retry(4)]
    obtain es where es: "trace w' = trace ?s @ es"
      "\<forall>t \<in> set (request_times es). clock ?s \<le> t \<and> t \<le> clock w'"
      "clock ?s \<le> clock w'"
      "res = None \<longrightarrow> last_request_time w' = last_request_time ?s"
      "res \<noteq> None \<longrightarrow> last_request_time w' = clock w'"
      by auto
    have cs: "clock w \<le> clock ?s"
      using call_complete_fields[OF retry(2)] d by (simp add: RETRY_DELAY_def)
    let ?es = "Request (clock w) model pr # Sleep (RETRY_DELAY * (real attempt + 1)) # es"
    have "trace w' = trace w @ ?es"
      using es(1) call_complete_fields[OF retry(2)] by simp
    moreover have "\<forall>t \<in> set (request_times ?es). clock w \<le> t \<and> t \<le> clock w'"
      using es(2,3) cs by auto
    moreover have "clock w \<le> clock w'" using es(3) cs by simp
    moreover have "res = None \<longrightarrow> last_request_time w' = last_request_time w"
      using es(4) call_complete_fields[OF retry(2)] by simp
    ultimately show ?thesis using es(5) by blast
  next
    case (give_up e w1)
    with call_complete_fields[OF give_up(2)] d show ?thesis by simp
  qed
qed

lemma throttle_clock:
  "last_request_time w + MIN_REQUEST_INTERVAL \<le> clock (throttle w) \<and> clock w \<le> clock (throttle w)"
  by (simp add: throttle_def Let_def MIN_REQUEST_INTERVAL_def)

lemma throttle_events:
  "trace (throttle w) = trace w @
     (if clock w - last_request_time w < MIN_REQUEST_INTERVAL
      then [Sleep (MIN_REQUEST_INTERVAL - (clock w - last_request_time w))] else [])"
  by (simp add: throttle_def Let_def)

lemma llm_complete_times:
  assumes dur: "\<forall>n model pr. 0 \<le> fst (complete_service E n model pr)"
    and lc: "llm_complete E model pr retries w = (res, w')"
  shows "(\<forall>t \<in> set (request_times (new_events w w')).
            last_request_time w + MIN_REQUEST_INTERVAL \<le> t \<and> t \<le> clock w')"
    and "res = None \<longrightarrow> last_request_time w' = last_request_time w"
    and "res \<noteq> None \<longrightarrow> last_request_time w' = clock w'"
    and "clock w - last_request_time w < MIN_REQUEST_INTERVAL \<longrightarrow>
           (\<exists>rest. new_events w w' = Sleep (MIN_REQUEST_INTERVAL - (clock w - last_request_time w)) # rest)"
proof -
  from lc have la: "llm_attempts E model pr retries 0 (throttle w) = (res, w')"
    by (simp add: llm_complete_def)
  from llm_attempts_times[OF dur la] obtain es where es:
    "trace w' = trace (throttle w) @ es"
    "\<forall>t \<in> set (request_times es). clock (throttle w) \<le> t \<and> t \<le> clock w'"
    "res = None \<longrightarrow> last_request_time w' = last_request_time (throttle w)"
    "res \<noteq> None \<longrightarrow> last_request_time w' = clock w'"
    by blast
  let ?ss = "if clock w - last_request_time w < MIN_REQUEST_INTERVAL
      then [Sleep (MIN_REQUEST_INTERVAL - (clock w - last_request_time w))] else []"
  from es(1) throttle_events[of w] have ne: "new_events w w' = ?ss @ es" by simp
  have rt: "request_times (?ss @ es) = request_times es" by simp
  show "\<forall>t \<in> set (request_times (new_events w w')).
            last_request_time w + MIN_REQUEST_INTERVAL \<le> t \<and> t \<le> clock w'"
    unfolding ne rt using es(2) throttle_clock[of w] by fastforce
  show "res = None \<longrightarrow> last_request_time w' = last_request_time w"
    using es(3) by simp
  show "res \<noteq> None \<longrightarrow> last_request_time w' = clock w'"
    using es(4) by simp
  show "clock w - last_request_time w < MIN_REQUEST_INTERVAL \<longrightarrow>
           (\<exists>rest. new_events w w' = Sleep (MIN_REQUEST_INTERVAL - (clock w - last_request_time w)) # rest)"
    using ne by simp
qed

text \<open>
  Claim C5. Time is the clock of the session: a call of the completion service and a sleep
  take time, never a negative one. Let a call of the completion client return an answer,
  and let a second call start in a session whose last-request marker is the one the first
  call left (no completion in between). Then every request of the second call is issued at
  least \<open>MIN_REQUEST_INTERVAL\<close> after every request of the first call, and after the marker;
  when less than the interval has elapsed at the start of the second call, the client first
  sleeps for the remaining interval. The marker changes only on success, where it becomes
  the time at which the answer arrived: a call that returns \<open>None\<close> leaves it as it was.
\<close>

theorem llm_complete_throttle:
  assumes dur: "\<forall>n model pr. 0 \<le> fst (complete_service E n model pr)"
    and first: "llm_complete E model1 pr1 retries1 w0 = (Some a, w1)"
    and between: "last_request_time w2 = last_request_time w1"
    and second: "llm_complete E model2 pr2 retries2 w2 = (res, w3)"
  shows "(\<forall>t1 \<in> set (request_times (new_events w0 w1)).
          \<forall>t2 \<in> set (request_times (new_events w2 w3)). t1 + MIN_REQUEST_INTERVAL \<le> t2)
       \<and> (\<forall>t2 \<in> set (request_times (new_events w2 w3)).
            last_request_time w1 + MIN_REQUEST_INTERVAL \<le> t2)
       \<and> (clock w2 - last_request_time w2 < MIN_REQUEST_INTERVAL \<longrightarrow>
            (\<exists>rest. new_events w2 w3
               = Sleep (MIN_REQUEST_INTERVAL - (clock w2 - last_request_time w2)) # rest))
       \<and> (res = None \<longrightarrow> last_request_time w3 = last_request_time w2)
       \<and> (\<forall>b. res = Some b \<longrightarrow> last_request_time w3 = clock w3)"
proof -
  note f = llm_complete_times[OF dur first]
  note s = llm_complete_times[OF dur second]
  from f(3) have m: "last_request_time w1 = clock w1" by simp
  have a: "\<forall>t1 \<in> set (request_times (new_events w0 w1)).
          \<forall>t2 \<in> set (request_times (new_events w2 w3)). t1 + MIN_REQUEST_INTERVAL \<le> t2"
  proof (intro ballI)
    fix t1 t2
    assume "t1 \<in> set (request_times (new_events w0 w1))"
      and "t2 \<in> set (request_times (new_events w2 w3))"
    with f(1) s(1) have "t1 \<le> clock w1" and "last_request_time w2 + MIN_REQUEST_INTERVAL \<le> t2"
      by blast+
    with m between show "t1 + MIN_REQUEST_INTERVAL \<le> t2" by simp
  qed
  have b: "\<forall>t2 \<in> set (request_times (new_events w2 w3)).
            last_request_time w1 + MIN_REQUEST_INTERVAL \<le> t2"
    using s(1) between by simp
  from a b s(4) s(2) s(3) show ?thesis by simp
qed

lemma services_up_complete:
  "llm_complete services_up model pr 2 w =
     (Some (str ''See the guidance.''),
      (emit (Request (clock (throttle w)) model pr) (throttle w))
        \<lparr>clock := clock (throttle w) + 1, calls := calls w + 1,
          last_request_time := clock (throttle w) + 1\<rparr>)"
  unfolding llm_complete_def
  by (subst llm_attempts_success[where resp = "str ''See the guidance.''"
        and ?w1.0 = "(emit (Request (clock (throttle w)) model pr) (throttle w))
        \<lparr>clock := clock (throttle w) + 1, calls := calls w + 1\<rparr>"])
     (simp_all add: call_complete_def services_up_def)

theorem llm_complete_throttle_witness:
  "request_times (new_events (init_session_state 100)
      (snd (llm_complete services_up MODEL_NAME sample_prompt 2 (init_session_state 100)))) = [100]
   \<and> new_events (snd (llm_complete services_up MODEL_NAME sample_prompt 2 (init_session_state 100)))
      (snd (llm_complete services_up MODEL_NAME sample_prompt 2
         (snd (llm_complete services_up MODEL_NAME sample_prompt 2 (init_session_state 100)))))
      = [Sleep 2, Request 103 MODEL_NAME sample_prompt]
   \<and> last_request_time (snd (llm_complete services_up MODEL_NAME sample_prompt 2
         (snd (llm_complete services_up MODEL_NAME sample_prompt 2 (init_session_state 100))))) = 104"
proof -
  let ?w0 = "init_session_state 100"
  let ?a = "str ''See the guidance.''"
  obtain w1 where c1: "llm_complete services_up MODEL_NAME sample_prompt 2 ?w0 = (Some ?a, w1)"
    by (simp add: services_up_complete)
  obtain w3 where c2: "llm_complete services_up MODEL_NAME sample_prompt 2 w1 = (Some ?a, w3)"
    by (simp add: services_up_complete)
  have t0: "throttle ?w0 = ?w0"
    by (simp add: throttle_def init_session_state_def MIN_REQUEST_INTERVAL_def)
  have w1: "w1 = (emit (Request (clock ?w0) MODEL_NAME sample_prompt) ?w0)
        \<lparr>clock := clock ?w0 + 1, calls := calls ?w0 + 1, last_request_time := clock ?w0 + 1\<rparr>"
    using c1 by (simp add: services_up_complete t0)
  have f1: "clock w1 = 101" "last_request_time w1 = 101"
    "trace w1 = trace ?w0 @ [Request 100 MODEL_NAME sample_prompt]"
    by (simp_all add: w1 init_session_state_def)
  have t1: "throttle w1 = sleep 2 w1"
    by (simp add: f1 throttle_def MIN_REQUEST_INTERVAL_def)
  have w3: "w3 = (emit (Request (clock (sleep 2 w1)) MODEL_NAME sample_prompt) (sleep 2 w1))
        \<lparr>clock := clock (sleep 2 w1) + 1, calls := calls w1 + 1,
          last_request_time := clock (sleep 2 w1) + 1\<rparr>"
    using c2 by (simp add: services_up_complete t1)
  have f3: "clock w3 = 104" "trace w3 = trace w1 @ [Sleep 2, Request 103 MODEL_NAME sample_prompt]"
    by (simp_all add: w3 f1)
  have dur: "\<forall>n model pr. 0 \<le> fst (complete_service services_up n model pr)"
    by (simp add: services_up_def)
  from llm_complete_throttle[OF dur c1 refl c2]
  have "last_request_time w3 = clock w3" by simp
  with f1 f3 c1 c2 show ?thesis by simp
qed

section \<open>Orchestrator: the documentation answer\<close>

lemmas pattern_defs =
  str_def euro_def is_digit_def is_space_def is_word_def lower_cp_def lower_def
  cat_def lit_def plus_def opt_def number_re_def comma_group_def integer_re_def tons_re_def
  of_re_def qty_re_def em_re_def keyword_re_def origin_re_def
  group_def match_here_def digit_val_def decimal_def py_int_def INT_MAX_STR_DIGITS_def py_float_def
  strip_commas_def
  bt.simps

lemma llm_complete_first_success:
  assumes "complete_service E (calls w) model pr = (d, Inr a)" and "0 < retries"
  shows "llm_complete E model pr retries w =
     (Some a,
      (emit (Request (clock (throttle w)) model pr) (throttle w))
        \<lparr>clock := clock (throttle w) + d, calls := calls w + 1,
          last_request_time := clock (throttle w) + d\<rparr>)"
  unfolding llm_complete_def using assms
  by (subst llm_attempts_success[where resp = a
        and ?w1.0 = "(emit (Request (clock (throttle w)) model pr) (throttle w))
        \<lparr>clock := clock (throttle w) + d, calls := calls w + 1\<rparr>"])
     (simp_all add: call_complete_def)

lemma extract_hello:
  "extract_cbam_request (str ''hello'')
     = Inr \<lparr>product = None, quantity = None, emissions = None, origin_price = 0\<rparr>"
  by (simp add: extract_cbam_request_def pattern_defs)

lemma quick_calculation_hello:
  "quick_calculation \<lparr>product = None, quantity = None, emissions = None, origin_price = 0\<rparr> w
     = Inr None"
  by (simp add: quick_calculation_def truthy_str_def)

text \<open>
  Claim C7, as amended. On a turn that takes the slow path: when the completion client
  returns no answer, the conversation after the turn is the conversation before it with the
  user's message appended, and exactly one completion error has been shown; when it returns
  a non-empty answer, that answer is appended as an assistant message after the user's
  message, and the answer and then its source are shown; when it returns the empty string,
  the turn ends like one without an answer, except that no error is shown: nothing is shown
  and nothing is stored after the client has returned.
\<close>

theorem ask_slow_path_messages:
  assumes cls: "extract_cbam_request q = Inr r"
    and slow: "quick_calculation r (post_question q w) = Inr None"
    and bp: "build_prompt E q (post_question q w) = ((pr, src), w1)"
    and lc: "llm_complete E MODEL_NAME pr 2 w1 = (answer, w2)"
  shows "(answer = None \<longrightarrow>
            messages (ask E q w) = messages w @ [(User, Text q)]
            \<and> new_events w2 (ask E q w) = []
            \<and> length (llm_errors (new_events w (ask E q w))) = 1)
       \<and> (\<forall>a. answer = Some a \<and> a \<noteq> [] \<longrightarrow>
            messages (ask E q w) = messages w @ [(User, Text q), (Assistant, Text a)]
            \<and> new_events w2 (ask E q w) = [Markdown Assistant (Text a), Caption src]
            \<and> llm_errors (new_events w (ask E q w)) = [])
       \<and> (answer = Some [] \<longrightarrow>
            ask E q w = w2
            \<and> messages (ask E q w) = messages w @ [(User, Text q)]
            \<and> new_events w2 (ask E q w) = []
            \<and> llm_errors (new_events w (ask E q w)) = [])"
proof -
  let ?p = "post_question q w"
  have ask: "ask E q w = documentation_answer E q ?p"
    using cls slow by (simp add: ask_def Let_def)
  have m1: "messages w1 = messages w @ [(User, Text q)]"
    using build_prompt_frame[OF bp] by simp
  have m2: "messages w2 = messages w1"
    using llm_complete_frame[OF lc] by simp
  obtain cs where cs: "trace w1 = trace ?p @ cs" "llm_errors cs = []"
    using bp by (auto simp: build_prompt_def cortex_search_def Let_def split: sum.splits)
  from lc have la: "llm_attempts E MODEL_NAME pr 2 0 (throttle w1) = (answer, w2)"
    by (simp add: llm_complete_def)
  from llm_attempts_trace[OF la] obtain es where es:
    "trace w2 = trace (throttle w1) @ es"
    "length (llm_errors es) = (if answer = None then 1 else 0)"
    by auto
  from throttle_trace obtain ss where ss: "trace (throttle w1) = trace w1 @ ss" "llm_errors ss = []"
    by blast
  have t2: "trace w2 = trace w @ (Markdown User (Text q) # cs @ ss @ es)"
    using es(1) ss(1) cs(1) by simp
  have e2: "length (llm_errors (Markdown User (Text q) # cs @ ss @ es)) = (if answer = None then 1 else 0)"
    using es(2) ss(2) cs(2) by simp
  have none: "answer = None \<longrightarrow>
            messages (ask E q w) = messages w @ [(User, Text q)]
            \<and> new_events w2 (ask E q w) = []
            \<and> length (llm_errors (new_events w (ask E q w))) = 1"
  proof
    assume a: "answer = None"
    then have d: "ask E q w = w2"
      using ask bp lc by (simp add: documentation_answer_def)
    from e2 a have "length (llm_errors (Markdown User (Text q) # cs @ ss @ es)) = 1" by simp
    with t2 have "length (llm_errors (new_events w w2)) = 1"
      by (simp del: llm_errors.simps append_Cons add: new_events_def)
    with m1 m2 show "messages (ask E q w) = messages w @ [(User, Text q)]
            \<and> new_events w2 (ask E q w) = []
            \<and> length (llm_errors (new_events w (ask E q w))) = 1"
      unfolding d by (simp add: new_events_def)
  qed
  have some: "\<forall>a. answer = Some a \<and> a \<noteq> [] \<longrightarrow>
            messages (ask E q w) = messages w @ [(User, Text q), (Assistant, Text a)]
            \<and> new_events w2 (ask E q w) = [Markdown Assistant (Text a), Caption src]
            \<and> llm_errors (new_events w (ask E q w)) = []"
  proof (intro allI impI)
    fix a assume a: "answer = Some a \<and> a \<noteq> []"
    then have d: "ask E q w = (emit (Caption src) (emit (Markdown Assistant (Text a)) w2))
                 \<lparr>messages := messages w2 @ [(Assistant, Text a)]\<rparr>"
      using ask bp lc by (simp add: documentation_answer_def)
    have "trace (ask E q w) = trace w @ (Markdown User (Text q) # cs @ ss @ es)
              @ [Markdown Assistant (Text a), Caption src]"
      unfolding d using t2 by simp
    moreover from e2 a have "llm_errors (Markdown User (Text q) # cs @ ss @ es) = []" by simp
    moreover have "llm_errors [Markdown Assistant (Text a), Caption src] = []" by simp
    ultimately have "llm_errors (new_events w (ask E q w)) = []"
      by (simp del: llm_errors.simps append_Cons add: new_events_def)
    moreover have "new_events w2 (ask E q w) = [Markdown Assistant (Text a), Caption src]"
      unfolding d by simp
    ultimately show "messages (ask E q w) = messages w @ [(User, Text q), (Assistant, Text a)]
            \<and> new_events w2 (ask E q w) = [Markdown Assistant (Text a), Caption src]
            \<and> llm_errors (new_events w (ask E q w)) = []"
      unfolding d using m1 m2 by simp
  qed
  have empty: "answer = Some [] \<longrightarrow>
            ask E q w = w2
            \<and> messages (ask E q w) = messages w @ [(User, Text q)]
            \<and> new_events w2 (ask E q w) = []
            \<and> llm_errors (new_events w (ask E q w)) = []"
  proof
    assume a: "answer = Some []"
    then have d: "ask E q w = w2"
      using ask bp lc by (simp add: documentation_answer_def)
    from e2 a have "llm_errors (Markdown User (Text q) # cs @ ss @ es) = []" by simp
    with t2 have "llm_errors (new_events w w2) = []"
      by (simp del: llm_errors.simps append_Cons add: new_events_def)
    with m1 m2 show "ask E q w = w2
            \<and> messages (ask E q w) = messages w @ [(User, Text q)]
            \<and> new_events w2 (ask E q w) = []
            \<and> llm_errors (new_events w (ask E q w)) = []"
      unfolding d by (simp add: new_events_def)
  qed
  from none some empty show ?thesis by blast
qed

theorem ask_slow_path_messages_witness:
  "messages (ask services_up (str ''hello'') (init_session_state 100))
     = [(User, Text (str ''hello'')), (Assistant, Text (str ''See the guidance.''))]
   \<and> messages (ask services_down (str ''hello'') (init_session_state 100))
     = [(User, Text (str ''hello''))]
   \<and> length (llm_errors (new_events (init_session_state 100)
        (ask services_down (str ''hello'') (init_session_state 100)))) = 1"
proof -
  let ?q = "str ''hello''"
  let ?w = "init_session_state 100"
  obtain pr src w1 where bp: "build_prompt services_up ?q (post_question ?q ?w) = ((pr, src), w1)"
    by (metis surj_pair)
  obtain w2 where lc: "llm_complete services_up MODEL_NAME pr 2 w1 = (Some (str ''See the guidance.''), w2)"
    by (simp add: llm_complete_first_success[where d = 1] services_up_def)
  obtain pr' src' w1' where bp': "build_prompt services_down ?q (post_question ?q ?w) = ((pr', src'), w1')"
    by (metis surj_pair)
  obtain answer w2' where lc': "llm_complete services_down MODEL_NAME pr' 2 w1' = (answer, w2')"
    by (rule prod.exhaust)
  from llm_complete_retry_policy[OF lc'] have n: "answer = None"
    by (simp add: services_down_def)
  have s: "str ''See the guidance.'' \<noteq> []" by (simp add: str_def)
  have m: "messages ?w = []" by (simp add: init_session_state_def)
  from ask_slow_path_messages[OF extract_hello quick_calculation_hello bp lc]
       ask_slow_path_messages[OF extract_hello quick_calculation_hello bp' lc'] n s m
  show ?thesis by simp
qed

text \<open>
  The claim as first stated has every returned result appended as an assistant message.
  The completion service may return the empty string: the client returns it as a result, and
  the orchestrator, which tests \<open>if answer:\<close>, appends nothing and shows neither the answer
  nor an error.
\<close>

theorem ask_empty_answer_dropped:
  "fst (llm_complete services_mute MODEL_NAME
          (fst (fst (build_prompt services_mute (str ''hello'')
             (post_question (str ''hello'') (init_session_state 100)))))
          2
          (snd (build_prompt services_mute (str ''hello'')
             (post_question (str ''hello'') (init_session_state 100))))) = Some []
   \<and> extract_cbam_request (str ''hello'')
       = Inr \<lparr>product = None, quantity = None, emissions = None, origin_price = 0\<rparr>
   \<and> quick_calculation \<lparr>product = None, quantity = None, emissions = None, origin_price = 0\<rparr>
        (post_question (str ''hello'') (init_session_state 100)) = Inr None
   \<and> messages (ask services_mute (str ''hello'') (init_session_state 100))
       = [(User, Text (str ''hello''))]
   \<and> llm_errors (trace (ask services_mute (str ''hello'') (init_session_state 100))) = []"
proof -
  let ?q = "str ''hello''"
  let ?w = "init_session_state 100"
  obtain pr src w1 where bp: "build_prompt services_mute ?q (post_question ?q ?w) = ((pr, src), w1)"
    by (metis surj_pair)
  obtain w2 where lc: "llm_complete services_mute MODEL_NAME pr 2 w1 = (Some [], w2)"
    by (simp add: llm_complete_first_success[where d = 1] services_mute_def)
  have ask: "ask services_mute ?q ?w = w2"
    using bp lc
    by (simp add: ask_def Let_def extract_hello quick_calculation_hello documentation_answer_def)
  have m: "messages w2 = [(User, Text ?q)]"
    using build_prompt_frame[OF bp] llm_complete_frame[OF lc] by (simp add: init_session_state_def)
  have w1: "trace w1 = [PriceFile DEFAULT_CARBON_PRICE False, Markdown User (Text ?q), Search ?q NUM_RESULTS]"
    using bp by (auto simp: build_prompt_def cortex_search_def services_mute_def Let_def
        init_session_state_def)
  from llm_complete_retry_policy[OF lc] have "length (llm_errors (new_events w1 w2)) = 0" by simp
  moreover from lc obtain es where "trace w2 = trace w1 @ es"
    unfolding llm_complete_def using llm_attempts_trace throttle_trace by (metis append.assoc)
  ultimately have "llm_errors (trace w2) = []" using w1 by simp
  with bp lc ask m extract_hello quick_calculation_hello show ?thesis by simp
qed

section \<open>The matcher finds what the pattern matches\<close>

lemma bt_sound:
  "bt r s c k = Some x \<Longrightarrow> \<exists>u v c'. s = u @ v \<and> matches r u c c' \<and> k v c' = Some x"
proof (induction r s c k arbitrary: x rule: bt.induct)
  case (1 cl s c k)
  show ?case
  proof (cases s)
    case Nil
    with "1.prems" show ?thesis by (simp add: bt.simps)
  next
    case (Cons y ys)
    with "1.prems" have "cmem cl y" and "k ys c = Some x"
      by (auto simp: bt.simps split: if_splits)
    with Cons have "s = [y] @ ys \<and> matches (Atom cl) [y] c c \<and> k ys c = Some x"
      by (simp add: m_atom)
    then show ?thesis by blast
  qed
next
  case (2 s c k)
  then have "s = [] @ s \<and> matches Eps [] c c \<and> k s c = Some x"
    by (simp add: bt.simps m_eps)
  then show ?case by blast
next
  case (3 a b s c k)
  from "3.prems" have "bt a s c (\<lambda>s' c'. bt b s' c' k) = Some x" by (simp add: bt.simps)
  from "3.IH"(2)[OF this] obtain u v c1 where
    a: "s = u @ v" "matches a u c c1" "bt b v c1 k = Some x" by blast
  from "3.IH"(1)[OF a(3)] obtain u' v' c' where
    b: "v = u' @ v'" "matches b u' c1 c'" "k v' c' = Some x" by blast
  from a b have "s = (u @ u') @ v' \<and> matches (Seq a b) (u @ u') c c' \<and> k v' c' = Some x"
    by (auto intro: m_seq)
  then show ?case by blast
next
  case (4 a b s c k)
  show ?case
  proof (cases "bt a s c k")
    case None
    with "4.prems" have "bt b s c k = Some x" by (simp add: bt.simps)
    from "4.IH"(2)[OF None this] show ?thesis by (blast intro: m_alt_right)
  next
    case (Some y)
    with "4.prems" have "bt a s c k = Some x" by (simp add: bt.simps)
    from "4.IH"(1)[OF this] show ?thesis by (blast intro: m_alt_left)
  qed
next
  case (5 a s c k)
  let ?K = "\<lambda>s' c'. if length s' < length s then bt (Star a) s' c' k else None"
  show ?case
  proof (cases "bt a s c ?K")
    case None
    with "5.prems" have "k s c = Some x" by (simp add: bt.simps)
    then have "s = [] @ s \<and> matches (Star a) [] c c \<and> k s c = Some x"
      by (simp add: m_star_stop)
    then show ?thesis by blast
  next
    case (Some y)
    with "5.prems" have "bt a s c ?K = Some x" by (simp add: bt.simps)
    from "5.IH"(2)[OF this] obtain u v c1 where
      a: "s = u @ v" "matches a u c c1" "?K v c1 = Some x" by blast
    from a(3) have lt: "length v < length s" and r: "bt (Star a) v c1 k = Some x"
      by (auto split: if_splits)
    from "5.IH"(1)[OF lt r] obtain u' v' c' where
      b: "v = u' @ v'" "matches (Star a) u' c1 c'" "k v' c' = Some x" by blast
    from a(1) lt have "u \<noteq> []" by auto
    with a b have "s = (u @ u') @ v' \<and> matches (Star a) (u @ u') c c' \<and> k v' c' = Some x"
      by (auto intro: m_star_step)
    then show ?thesis by blast
  qed
next
  case (6 a s c k)
  let ?K = "\<lambda>s' c'. if length s' < length s then bt (LazyStar a) s' c' k else None"
  show ?case
  proof (cases "k s c")
    case (Some y)
    with "6.prems" have "k s c = Some x" by (simp add: bt.simps)
    then have "s = [] @ s \<and> matches (LazyStar a) [] c c \<and> k s c = Some x"
      by (simp add: m_lazy_stop)
    then show ?thesis by blast
  next
    case None
    with "6.prems" have "bt a s c ?K = Some x" by (simp add: bt.simps)
    from "6.IH"(2)[OF None this] obtain u v c1 where
      a: "s = u @ v" "matches a u c c1" "?K v c1 = Some x" by blast
    from a(3) have lt: "length v < length s" and r: "bt (LazyStar a) v c1 k = Some x"
      by (auto split: if_splits)
    from "6.IH"(1)[OF None lt r] obtain u' v' c' where
      b: "v = u' @ v'" "matches (LazyStar a) u' c1 c'" "k v' c' = Some x" by blast
    from a(1) lt have "u \<noteq> []" by auto
    with a b have "s = (u @ u') @ v' \<and> matches (LazyStar a) (u @ u') c c' \<and> k v' c' = Some x"
      by (auto intro: m_lazy_step)
    then show ?thesis by blast
  qed
next
  case (7 n a s c k)
  from "7.prems" have "bt a s c (\<lambda>s' c'. k s' (c'(n := Some (take (length s - length s') s)))) = Some x"
    by (simp add: bt.simps)
  from "7.IH"[OF this] obtain u v c' where
    a: "s = u @ v" "matches a u c c'" "k v (c'(n := Some (take (length s - length v) s))) = Some x"
    by blast
  from a(1) have "take (length s - length v) s = u" by simp
  with a have "s = u @ v \<and> matches (Group n a) u c (c'(n := Some u)) \<and> k v (c'(n := Some u)) = Some x"
    by (auto intro: m_group)
  then show ?case by blast
qed

lemma bt_complete:
  "matches r u c c' \<Longrightarrow> k v c' \<noteq> None \<Longrightarrow> bt r (u @ v) c k \<noteq> None"
proof (induction r u c c' arbitrary: k v rule: matches.induct)
  case (m_atom cl x c)
  then show ?case by (simp add: bt.simps)
next
  case (m_eps c)
  then show ?case by (simp add: bt.simps)
next
  case (m_seq a u c c1 b w c')
  from m_seq.IH(2)[of k v, OF m_seq.prems] have "bt b (w @ v) c1 k \<noteq> None" .
  from m_seq.IH(1)[of "\<lambda>s' c'. bt b s' c' k" "w @ v", OF this] show ?case
    by (simp add: bt.simps(3))
next
  case (m_alt_left a u c c' b)
  from m_alt_left.IH[of k v, OF m_alt_left.prems] show ?case
    by (subst bt.simps(4)) (auto split: option.splits)
next
  case (m_alt_right b u c c' a)
  from m_alt_right.IH[of k v, OF m_alt_right.prems] show ?case
    by (subst bt.simps(4)) (auto split: option.splits)
next
  case (m_star_stop a c)
  then show ?case
    by (subst bt.simps(5)) (auto split: option.splits)
next
  case (m_star_step a u c c1 w c')
  let ?s = "(u @ w) @ v"
  let ?K = "\<lambda>s' c'. if length s' < length ?s then bt (Star a) s' c' k else None"
  from m_star_step.IH(2)[of k v, OF m_star_step.prems] have r: "bt (Star a) (w @ v) c1 k \<noteq> None" .
  from m_star_step.hyps(2) have "length (w @ v) < length ?s" by (cases u) simp_all
  with r have "?K (w @ v) c1 \<noteq> None" by simp
  from m_star_step.IH(1)[of ?K "w @ v", OF this]
  have "bt a ?s c ?K \<noteq> None" by simp
  then show ?case
    by (subst bt.simps(5)) (auto split: option.splits)
next
  case (m_lazy_stop a c)
  then show ?case
    by (subst bt.simps(6)) (auto split: option.splits)
next
  case (m_lazy_step a u c c1 w c')
  let ?s = "(u @ w) @ v"
  let ?K = "\<lambda>s' c'. if length s' < length ?s then bt (LazyStar a) s' c' k else None"
  from m_lazy_step.IH(2)[of k v, OF m_lazy_step.prems] have r: "bt (LazyStar a) (w @ v) c1 k \<noteq> None" .
  from m_lazy_step.hyps(2) have "length (w @ v) < length ?s" by (cases u) simp_all
  with r have "?K (w @ v) c1 \<noteq> None" by simp
  from m_lazy_step.IH(1)[of ?K "w @ v", OF this]
  have "bt a ?s c ?K \<noteq> None" by simp
  then show ?case
    by (subst bt.simps(6)) (auto split: option.splits)
next
  case (m_group a u c c' n)
  let ?K = "\<lambda>s' c'. k s' (c'(n := Some (take (length (u @ v) - length s') (u @ v))))"
  have "?K v c' \<noteq> None"
    using m_group.prems by (simp add: fun_upd_def)
  from m_group.IH[of ?K v, OF this]
  show ?case by (simp add: bt.simps(7))
qed

lemma match_here_Some:
  assumes "match_here r s = Some c'"
  shows "\<exists>u v. s = u @ v \<and> matches r u (\<lambda>n. None) c'"
proof -
  from assms have "bt r s (\<lambda>n. None) (\<lambda>s' c'. Some c') = Some c'"
    by (simp add: match_here_def)
  from bt_sound[OF this] show ?thesis by auto
qed

lemma match_here_None:
  assumes "match_here r s = None" and "s = u @ v"
  shows "\<not> matches r u (\<lambda>n. None) c'"
proof
  assume "matches r u (\<lambda>n. None) c'"
  from bt_complete[OF this, of "\<lambda>s' c'. Some c'" v] assms show False
    by (simp add: match_here_def)
qed

lemma occurs_at_0: "occurs_at r s 0 \<longleftrightarrow> match_here r s \<noteq> None"
proof
  assume "occurs_at r s 0"
  then obtain u v c' where "s = u @ v" "matches r u (\<lambda>n. None) c'"
    by (auto simp: occurs_at_def)
  with match_here_None[of r s u v c'] show "match_here r s \<noteq> None" by blast
next
  assume "match_here r s \<noteq> None"
  then obtain c' where "match_here r s = Some c'" by blast
  from match_here_Some[OF this] show "occurs_at r s 0"
    by (auto simp: occurs_at_def)
qed

lemma occurs_at_Suc: "occurs_at r (x # xs) (Suc i) \<longleftrightarrow> occurs_at r xs i"
  by (simp add: occurs_at_def)

lemma occurs_at_Nil: "occurs_at r [] i \<longleftrightarrow> i = 0 \<and> occurs_at r [] 0"
  by (auto simp: occurs_at_def)

text \<open>
  \<open>re.search\<close> returns the groups of a match at the first position where the pattern has
  a match, and \<open>None\<close> exactly when it has a match at no position.
\<close>

lemma search_Some:
  "search r s = Some c' \<Longrightarrow>
   \<exists>i. occurs_at r s i \<and> (\<forall>j < i. \<not> occurs_at r s j) \<and> match_here r (drop i s) = Some c'"
proof (induction s)
  case Nil
  then have mh: "match_here r [] = Some c'" by simp
  then have "occurs_at r [] 0" by (simp add: occurs_at_0)
  with mh have "occurs_at r [] 0 \<and> (\<forall>j < 0. \<not> occurs_at r [] j) \<and> match_here r (drop 0 []) = Some c'"
    by simp
  then show ?case by (rule exI)
next
  case (Cons x xs)
  show ?case
  proof (cases "match_here r (x # xs)")
    case (Some y)
    with Cons.prems have mh: "match_here r (x # xs) = Some c'" by simp
    then have "occurs_at r (x # xs) 0" by (simp add: occurs_at_0)
    with mh have "occurs_at r (x # xs) 0 \<and> (\<forall>j < 0. \<not> occurs_at r (x # xs) j)
        \<and> match_here r (drop 0 (x # xs)) = Some c'"
      by simp
    then show ?thesis by (rule exI)
  next
    case None
    with Cons.prems have "search r xs = Some c'" by simp
    from Cons.IH[OF this] obtain i where
      i: "occurs_at r xs i" "\<forall>j < i. \<not> occurs_at r xs j" "match_here r (drop i xs) = Some c'"
      by blast
    have "\<forall>j < Suc i. \<not> occurs_at r (x # xs) j"
    proof (intro allI impI)
      fix j assume j: "j < Suc i"
      show "\<not> occurs_at r (x # xs) j"
      proof (cases j)
        case 0
        with None show ?thesis by (simp add: occurs_at_0)
      next
        case (Suc j')
        with j i(2) show ?thesis by (simp add: occurs_at_Suc)
      qed
    qed
    with i have "occurs_at r (x # xs) (Suc i) \<and> (\<forall>j < Suc i. \<not> occurs_at r (x # xs) j)
        \<and> match_here r (drop (Suc i) (x # xs)) = Some c'"
      by (simp add: occurs_at_Suc)
    then show ?thesis by (rule exI)
  qed
qed

lemma search_None: "search r s = None \<longleftrightarrow> (\<forall>i. \<not> occurs_at r s i)"
proof (induction s)
  case Nil
  have "search r [] = None \<longleftrightarrow> \<not> occurs_at r [] 0"
    by (simp add: occurs_at_0)
  also have "\<dots> \<longleftrightarrow> (\<forall>i. \<not> occurs_at r [] i)"
    using occurs_at_Nil by blast
  finally show ?case .
next
  case (Cons x xs)
  have "search r (x # xs) = None \<longleftrightarrow> match_here r (x # xs) = None \<and> search r xs = None"
    by (simp split: option.splits)
  also have "\<dots> \<longleftrightarrow> \<not> occurs_at r (x # xs) 0 \<and> (\<forall>i. \<not> occurs_at r (x # xs) (Suc i))"
    by (simp add: occurs_at_0 occurs_at_Suc Cons.IH)
  also have "\<dots> \<longleftrightarrow> (\<forall>i. \<not> occurs_at r (x # xs) i)"
    by (metis not0_implies_Suc)
  finally show ?case .
qed

section \<open>The three patterns match the phrases\<close>

inductive_simps matches_Atom: "matches (Atom cl) u c c'"
inductive_simps matches_Eps: "matches Eps u c c'"
inductive_simps matches_Seq: "matches (Seq a b) u c c'"
inductive_simps matches_Alt: "matches (Alt a b) u c c'"
inductive_simps matches_Group: "matches (Group n a) u c c'"

lemma matches_cat_Nil: "matches (cat []) u c c' \<longleftrightarrow> u = [] \<and> c' = c"
  by (auto simp: cat_def matches_Eps)

lemma matches_cat_Cons:
  "matches (cat (r # rs)) u c c' \<longleftrightarrow>
     (\<exists>u1 u2 c1. u = u1 @ u2 \<and> matches r u1 c c1 \<and> matches (cat rs) u2 c1 c')"
  by (auto simp: cat_def matches_Seq)

lemma matches_cat_Atom:
  "matches (cat (Atom cl # rs)) u c c' \<longleftrightarrow>
     (\<exists>x u2. u = x # u2 \<and> cmem cl x \<and> matches (cat rs) u2 c c')"
proof
  assume "matches (cat (Atom cl # rs)) u c c'"
  then show "\<exists>x u2. u = x # u2 \<and> cmem cl x \<and> matches (cat rs) u2 c c'"
    by (auto simp: matches_cat_Cons matches_Atom)
next
  assume "\<exists>x u2. u = x # u2 \<and> cmem cl x \<and> matches (cat rs) u2 c c'"
  then obtain x u2 where h: "u = [x] @ u2" "cmem cl x" "matches (cat rs) u2 c c'" by auto
  from h(2) have "matches (Atom cl) [x] c c" by (rule m_atom)
  with h show "matches (cat (Atom cl # rs)) u c c'"
    unfolding matches_cat_Cons by blast
qed

lemma matches_cat_ConsE:
  assumes "matches (cat (r # rs)) u c c'"
  obtains u1 u2 c1 where "u = u1 @ u2" "matches r u1 c c1" "matches (cat rs) u2 c1 c'"
  using assms unfolding matches_cat_Cons by blast

lemma matches_opt: "matches (opt r) u c c' \<longleftrightarrow> matches r u c c' \<or> (u = [] \<and> c' = c)"
  by (auto simp: opt_def matches_Alt matches_Eps)

lemma matches_star_class_only:
  "matches r u c c' \<Longrightarrow> r = Star (Atom cl) \<Longrightarrow> list_all (cmem cl) u \<and> c' = c"
  by (induction r u c c' rule: matches.induct) (auto simp: matches_Atom)

lemma matches_star_class_if:
  "list_all (cmem cl) u \<Longrightarrow> matches (Star (Atom cl)) u c c"
proof (induction u)
  case Nil
  show ?case by (rule m_star_stop)
next
  case (Cons x xs)
  then have "matches (Atom cl) [x] c c" and "matches (Star (Atom cl)) xs c c"
    by (simp_all add: matches_Atom)
  from m_star_step[OF this(1) _ this(2)] show ?case by simp
qed

lemma matches_star_class:
  "matches (Star (Atom cl)) u c c' \<longleftrightarrow> list_all (cmem cl) u \<and> c' = c"
  using matches_star_class_only matches_star_class_if by blast




lemma matches_plus_class:
  "matches (plus (Atom cl)) u c c' \<longleftrightarrow> u \<noteq> [] \<and> list_all (cmem cl) u \<and> c' = c"
proof
  assume "matches (plus (Atom cl)) u c c'"
  then show "u \<noteq> [] \<and> list_all (cmem cl) u \<and> c' = c"
    by (auto simp: plus_def matches_Seq matches_Atom matches_star_class)
next
  assume h: "u \<noteq> [] \<and> list_all (cmem cl) u \<and> c' = c"
  then obtain x xs where u: "u = [x] @ xs" by (cases u) auto
  with h have "matches (Atom cl) [x] c c" and "matches (Star (Atom cl)) xs c c"
    by (simp_all add: matches_Atom matches_star_class)
  from m_seq[OF this] h u show "matches (plus (Atom cl)) u c c'"
    by (simp add: plus_def)
qed

lemma matches_lit: "matches (lit cs) u c c' \<longleftrightarrow> reads cs u \<and> c' = c"
proof (induction cs arbitrary: u)
  case Nil
  show ?case by (simp add: lit_def matches_cat_Nil reads_def str_def)
next
  case (Cons ch cs)
  have "matches (lit (ch # cs)) u c c' \<longleftrightarrow>
        (\<exists>x u2. u = x # u2 \<and> lower_cp x = lower_cp (of_char ch) \<and> matches (lit cs) u2 c c')"
    by (simp add: lit_def matches_cat_Atom)
  also have "\<dots> \<longleftrightarrow> reads (ch # cs) u \<and> c' = c"
    unfolding Cons.IH by (cases u) (auto simp: reads_def str_def)
  finally show ?case .
qed

lemma lower_cp_plain:
  "\<not> (65 \<le> p \<and> p \<le> 90) \<Longrightarrow> \<not> (97 \<le> p \<and> p \<le> 122) \<Longrightarrow> lower_cp x = lower_cp p \<longleftrightarrow> x = p"
  by (auto simp: lower_cp_def)

lemma lower_cp_punct [simp]:
  "lower_cp x = lower_cp 46 \<longleftrightarrow> x = 46" "lower_cp x = lower_cp 44 \<longleftrightarrow> x = 44"
  "lower_cp x = lower_cp euro \<longleftrightarrow> x = euro"
  by (simp_all add: lower_cp_plain euro_def)


lemma matches_comma_group:
  "matches comma_group u c c' \<longleftrightarrow>
     (\<exists>g. u = 44 # g \<and> length g = 3 \<and> list_all is_digit g) \<and> c' = c"
proof
  assume "matches comma_group u c c'"
  then show "(\<exists>g. u = 44 # g \<and> length g = 3 \<and> list_all is_digit g) \<and> c' = c"
    unfolding comma_group_def by (auto simp: matches_cat_Atom matches_cat_Nil)
next
  assume "(\<exists>g. u = 44 # g \<and> length g = 3 \<and> list_all is_digit g) \<and> c' = c"
  then obtain g where g: "u = 44 # g" "length g = 3" "list_all is_digit g" "c' = c" by blast
  then obtain x y z where "g = [x, y, z]"
    by (cases g; cases "tl g"; cases "tl (tl g)") auto
  with g show "matches comma_group u c c'"
    unfolding comma_group_def by (simp add: matches_cat_Atom matches_cat_Nil)
qed

lemma matches_comma_groups_only:
  "matches r u c c' \<Longrightarrow> r = Star comma_group \<Longrightarrow>
   (\<exists>gs. u = concat (map (\<lambda>g. 44 # g) gs) \<and> list_all (\<lambda>g. length g = 3 \<and> list_all is_digit g) gs)
   \<and> c' = c"
proof (induction r u c c' rule: matches.induct)
  case (m_star_stop a c)
  have "[] = concat (map (\<lambda>g. 44 # g) []) \<and> list_all (\<lambda>g. length g = 3 \<and> list_all is_digit g) []"
    by simp
  then show ?case by blast
next
  case (m_star_step a u c c1 v c')
  then have a: "a = comma_group" by simp
  with m_star_step.hyps(1) obtain g where
    g: "u = 44 # g" "length g = 3" "list_all is_digit g" "c1 = c"
    by (auto simp: matches_comma_group)
  from m_star_step.IH(2) a obtain gs where
    gs: "v = concat (map (\<lambda>g. 44 # g) gs)" "list_all (\<lambda>g. length g = 3 \<and> list_all is_digit g) gs"
      "c' = c1"
    by auto
  from g gs have "u @ v = concat (map (\<lambda>g. 44 # g) (g # gs))
      \<and> list_all (\<lambda>g. length g = 3 \<and> list_all is_digit g) (g # gs)"
    by simp
  with g(4) gs(3) show ?case by blast
qed simp_all

lemma matches_comma_groups_if:
  "list_all (\<lambda>g. length g = 3 \<and> list_all is_digit g) gs \<Longrightarrow>
   matches (Star comma_group) (concat (map (\<lambda>g. 44 # g) gs)) c c"
proof (induction gs)
  case Nil
  show ?case by (simp add: m_star_stop)
next
  case (Cons g gs)
  then have "matches comma_group (44 # g) c c"
    and "matches (Star comma_group) (concat (map (\<lambda>g. 44 # g) gs)) c c"
    by (simp_all add: matches_comma_group)
  from m_star_step[OF this(1) _ this(2)] show ?case by simp
qed

lemma matches_integer: "matches integer_re u c c' \<longleftrightarrow> thousands u \<and> c' = c"
  unfolding integer_re_def
proof
  assume "matches (cat [plus (Atom Digit), Star comma_group]) u c c'"
  then obtain d v where "u = d @ v" "d \<noteq> []" "list_all is_digit d"
    "matches (Star comma_group) v c c'"
    by (auto simp: matches_cat_Cons matches_cat_Nil matches_plus_class list_all_iff)
  with matches_comma_groups_only[OF this(4) refl] show "thousands u \<and> c' = c"
    unfolding thousands_def digits_def by blast
next
  assume "thousands u \<and> c' = c"
  then obtain d gs where h: "u = d @ concat (map (\<lambda>g. 44 # g) gs)" "digits d"
    "list_all (\<lambda>g. length g = 3 \<and> list_all is_digit g) gs" "c' = c"
    unfolding thousands_def by blast
  from h(2) have "matches (plus (Atom Digit)) d c c"
    by (simp add: matches_plus_class digits_def list_all_iff)
  moreover from matches_comma_groups_if[OF h(3)]
  have "matches (cat [Star comma_group]) (concat (map (\<lambda>g. 44 # g) gs)) c c"
    by (simp add: matches_cat_Cons matches_cat_Nil)
  ultimately show "matches (cat [plus (Atom Digit), Star comma_group]) u c c'"
    unfolding matches_cat_Cons[of "plus (Atom Digit)"] using h(1,4) by blast
qed

lemma matches_cat_append:
  "matches (cat (rs @ ts)) u c c' \<longleftrightarrow>
     (\<exists>u1 u2 c1. u = u1 @ u2 \<and> matches (cat rs) u1 c c1 \<and> matches (cat ts) u2 c1 c')"
proof (induction rs arbitrary: u c)
  case Nil
  show ?case by (simp add: matches_cat_Nil)
next
  case (Cons r rs)
  show ?case
  proof
    assume "matches (cat ((r # rs) @ ts)) u c c'"
    then obtain v w c0 where a: "u = v @ w" "matches r v c c0" "matches (cat (rs @ ts)) w c0 c'"
      by (auto simp: matches_cat_Cons)
    from a(3) Cons.IH obtain u1 u2 c1 where
      b: "w = u1 @ u2" "matches (cat rs) u1 c0 c1" "matches (cat ts) u2 c1 c'" by blast
    from a b have "u = (v @ u1) @ u2 \<and> matches (cat (r # rs)) (v @ u1) c c1 \<and> matches (cat ts) u2 c1 c'"
      by (auto simp: matches_cat_Cons)
    then show "\<exists>u1 u2 c1. u = u1 @ u2 \<and> matches (cat (r # rs)) u1 c c1 \<and> matches (cat ts) u2 c1 c'"
      by blast
  next
    assume "\<exists>u1 u2 c1. u = u1 @ u2 \<and> matches (cat (r # rs)) u1 c c1 \<and> matches (cat ts) u2 c1 c'"
    then obtain u1 u2 c1 where a: "u = u1 @ u2" "matches (cat (r # rs)) u1 c c1" "matches (cat ts) u2 c1 c'"
      by blast
    from a(2) obtain v w c0 where b: "u1 = v @ w" "matches r v c c0" "matches (cat rs) w c0 c1"
      by (auto simp: matches_cat_Cons)
    from b(3) a(3) Cons.IH have "matches (cat (rs @ ts)) (w @ u2) c0 c'" by blast
    with b(2) have "matches (cat (r # rs @ ts)) (v @ w @ u2) c c'"
      unfolding matches_cat_Cons by blast
    with a(1) b(1) show "matches (cat ((r # rs) @ ts)) u c c'" by simp
  qed
qed

lemma matches_tons: "matches (cat tons_re) gap c c' \<longleftrightarrow> tons gap \<and> c' = c"
proof
  assume "matches (cat tons_re) gap c c'"
  then obtain ws1 r1 c1 where 1: "gap = ws1 @ r1" "matches (plus (Atom Space)) ws1 c c1"
    "matches (cat [lit ''ton'', opt (lit ''s''), plus (Atom Space)]) r1 c1 c'"
    unfolding tons_re_def by (rule matches_cat_ConsE)
  from 1(3) obtain t r2 c2 where 2: "r1 = t @ r2" "matches (lit ''ton'') t c1 c2"
    "matches (cat [opt (lit ''s''), plus (Atom Space)]) r2 c2 c'"
    by (rule matches_cat_ConsE)
  from 2(3) obtain s r3 c3 where 3: "r2 = s @ r3" "matches (opt (lit ''s'')) s c2 c3"
    "matches (cat [plus (Atom Space)]) r3 c3 c'"
    by (rule matches_cat_ConsE)
  from 3(3) have 4: "matches (plus (Atom Space)) r3 c3 c'"
    by (auto simp: matches_cat_Cons matches_cat_Nil)
  from 1(2) have a: "ws1 \<noteq> []" "spaces ws1" "c1 = c"
    by (simp_all add: matches_plus_class spaces_def list_all_iff)
  from 2(2) have b: "reads ''ton'' t" "c2 = c1" by (simp_all add: matches_lit)
  from 3(2) have c: "s = [] \<or> reads ''s'' s" "c3 = c2" by (auto simp: matches_opt matches_lit)
  from 4 have d: "r3 \<noteq> []" "spaces r3" "c' = c3"
    by (simp_all add: matches_plus_class spaces_def list_all_iff)
  from 1(1) 2(1) 3(1) have "gap = ws1 @ t @ s @ r3" by simp
  with a b c d show "tons gap \<and> c' = c"
    unfolding tons_def by blast
next
  assume "tons gap \<and> c' = c"
  then obtain ws1 t s ws2 where h:
    "gap = ws1 @ t @ s @ ws2" "ws1 \<noteq> []" "spaces ws1" "reads ''ton'' t"
    "s = [] \<or> reads ''s'' s" "ws2 \<noteq> []" "spaces ws2" "c' = c"
    unfolding tons_def by blast
  have 1: "matches (plus (Atom Space)) ws1 c c" and 4: "matches (plus (Atom Space)) ws2 c c"
    using h by (simp_all add: matches_plus_class spaces_def list_all_iff)
  have 2: "matches (lit ''ton'') t c c" using h by (simp add: matches_lit)
  have 3: "matches (opt (lit ''s'')) s c c" using h by (auto simp: matches_opt matches_lit)
  from 4 have "matches (cat [plus (Atom Space)]) ws2 c c"
    by (simp add: matches_cat_Cons matches_cat_Nil)
  with 3 have "matches (cat [opt (lit ''s''), plus (Atom Space)]) (s @ ws2) c c"
    unfolding matches_cat_Cons[of "opt (lit ''s'')"] by blast
  with 2 have "matches (cat [lit ''ton'', opt (lit ''s''), plus (Atom Space)]) (t @ s @ ws2) c c"
    unfolding matches_cat_Cons[of "lit ''ton''"] by blast
  with 1 have "matches (cat tons_re) (ws1 @ t @ s @ ws2) c c"
    unfolding tons_re_def matches_cat_Cons[of "plus (Atom Space)" "lit ''ton'' # _"] by blast
  with h(1,8) show "matches (cat tons_re) gap c c'" by simp
qed

lemma matches_of: "matches of_re f c c' \<longleftrightarrow> (f = [] \<or> of_word f) \<and> c' = c"
proof
  assume "matches of_re f c c'"
  then show "(f = [] \<or> of_word f) \<and> c' = c"
    unfolding of_re_def of_word_def
    by (auto simp: matches_opt matches_cat_Cons matches_cat_Nil matches_lit matches_plus_class
        spaces_def list_all_iff)
next
  assume h: "(f = [] \<or> of_word f) \<and> c' = c"
  show "matches of_re f c c'"
  proof (cases "f = []")
    case True
    with h show ?thesis by (simp add: of_re_def matches_opt)
  next
    case False
    with h obtain f1 ws3 where f: "f = f1 @ ws3" "reads ''of'' f1" "ws3 \<noteq> []" "spaces ws3"
      unfolding of_word_def by blast
    then have "matches (lit ''of'') f1 c c" and "matches (cat [plus (Atom Space)]) ws3 c c"
      by (simp_all add: matches_lit matches_cat_Cons matches_cat_Nil matches_plus_class spaces_def
          list_all_iff)
    then have "matches (cat [lit ''of'', plus (Atom Space)]) (f1 @ ws3) c c"
      unfolding matches_cat_Cons[of "lit ''of''"] by blast
    with f(1) h show ?thesis by (simp add: of_re_def matches_opt)
  qed
qed

lemma matches_word_group:
  "matches (cat [Group n (plus (Atom Word))]) w c c' \<longleftrightarrow> word w \<and> c' = c(n := Some w)"
  by (auto simp: matches_cat_Cons matches_cat_Nil matches_Group matches_plus_class word_def
      list_all_iff)

lemma matches_qty:
  "matches qty_re u c c' \<longleftrightarrow> (\<exists>ds w. qty_phrase u ds w \<and> c' = c(1 := Some ds, 2 := Some w))"
proof
  assume "matches qty_re u c c'"
  then obtain ds r c1 where a: "u = ds @ r" "matches (Group 1 integer_re) ds c c1"
    "matches (cat (tons_re @ [of_re, Group 2 (plus (Atom Word))])) r c1 c'"
    unfolding qty_re_def by (auto simp: matches_cat_Cons)
  from a(2) have ds: "thousands ds" "c1 = c(1 := Some ds)"
    by (auto simp: matches_Group matches_integer)
  from a(3) obtain gap r2 c2 where b: "r = gap @ r2" "matches (cat tons_re) gap c1 c2"
    "matches (cat [of_re, Group 2 (plus (Atom Word))]) r2 c2 c'"
    unfolding matches_cat_append by blast
  from b(2) have gap: "tons gap" "c2 = c1" by (simp_all add: matches_tons)
  from b(3) obtain f w c3 where c: "r2 = f @ w" "matches of_re f c2 c3"
    "matches (cat [Group 2 (plus (Atom Word))]) w c3 c'"
    by (rule matches_cat_ConsE)
  from c(2) have f: "f = [] \<or> of_word f" "c3 = c2" by (simp_all add: matches_of)
  from c(3) have w: "word w" "c' = c3(2 := Some w)" by (simp_all add: matches_word_group)
  from a(1) b(1) c(1) ds gap f w have "qty_phrase u ds w \<and> c' = c(1 := Some ds, 2 := Some w)"
    unfolding qty_phrase_def by blast
  then show "\<exists>ds w. qty_phrase u ds w \<and> c' = c(1 := Some ds, 2 := Some w)" by blast
next
  assume "\<exists>ds w. qty_phrase u ds w \<and> c' = c(1 := Some ds, 2 := Some w)"
  then obtain ds w gap f where h: "u = ds @ gap @ f @ w" "thousands ds" "tons gap"
    "f = [] \<or> of_word f" "word w" "c' = c(1 := Some ds, 2 := Some w)"
    unfolding qty_phrase_def by blast
  let ?c1 = "c(1 := Some ds)"
  from h(2) have 1: "matches (Group 1 integer_re) ds c ?c1"
    by (auto simp: matches_Group matches_integer)
  from h(3) have 2: "matches (cat tons_re) gap ?c1 ?c1" by (simp add: matches_tons)
  from h(4) have 3: "matches of_re f ?c1 ?c1" by (simp add: matches_of)
  from h(5) have 4: "matches (cat [Group 2 (plus (Atom Word))]) w ?c1 (?c1(2 := Some w))"
    by (simp add: matches_word_group)
  from 3 4 have "matches (cat [of_re, Group 2 (plus (Atom Word))]) (f @ w) ?c1 (?c1(2 := Some w))"
    unfolding matches_cat_Cons[of of_re] by blast
  with 2 have "matches (cat (tons_re @ [of_re, Group 2 (plus (Atom Word))])) (gap @ f @ w) ?c1 (?c1(2 := Some w))"
    unfolding matches_cat_append by blast
  with 1 have "matches qty_re (ds @ gap @ f @ w) c (?c1(2 := Some w))"
    unfolding qty_re_def matches_cat_Cons by blast
  with h(1,6) show "matches qty_re u c c'" by simp
qed

section \<open>How the matcher runs\<close>

lemma bt_cat_Nil: "bt (cat []) s c k = k s c"
  by (simp add: cat_def bt.simps)

lemma bt_cat_Cons: "bt (cat (r # rs)) s c k = bt r s c (\<lambda>s' c'. bt (cat rs) s' c' k)"
  by (simp add: cat_def bt.simps)

lemma bt_cat_append:
  "bt (cat (rs @ ts)) s c k = bt (cat rs) s c (\<lambda>s' c'. bt (cat ts) s' c' k)"
  by (induction rs arbitrary: s c k) (simp_all add: bt_cat_Nil bt_cat_Cons)

lemma bt_Atom_Nil: "bt (Atom cl) [] c k = None"
  by (simp add: bt.simps)

lemma bt_Atom_Cons: "bt (Atom cl) (x # xs) c k = (if cmem cl x then k xs c else None)"
  by (simp add: bt.simps)

lemma bt_opt: "bt (opt r) s c k = (case bt r s c k of Some x \<Rightarrow> Some x | None \<Rightarrow> k s c)"
  by (cases "bt r s c k") (simp_all add: opt_def bt.simps)

lemma bt_plus: "bt (plus r) s c k = bt r s c (\<lambda>s' c'. bt (Star r) s' c' k)"
  by (simp add: plus_def bt.simps)

lemma bt_star_class_Nil: "bt (Star (Atom cl)) [] c k = k [] c"
  by (subst bt.simps) (simp add: bt_Atom_Nil)

lemma bt_star_class_Cons:
  "bt (Star (Atom cl)) (x # xs) c k =
     (if cmem cl x
      then (case bt (Star (Atom cl)) xs c k of Some r \<Rightarrow> Some r | None \<Rightarrow> k (x # xs) c)
      else k (x # xs) c)"
  by (subst bt.simps) (simp add: bt_Atom_Cons)


lemma bt_lazy_class_Cons:
  "bt (LazyStar (Atom cl)) (x # xs) c k =
     (case k (x # xs) c of
        Some r \<Rightarrow> Some r
      | None \<Rightarrow> if cmem cl x then bt (LazyStar (Atom cl)) xs c k else None)"
  by (subst bt.simps) (simp add: bt_Atom_Cons split: option.splits)

lemma reads_Nil [simp]: "reads [] u \<longleftrightarrow> u = []"
  by (simp add: reads_def str_def)

lemma reads_Cons:
  "reads (ch # cs) u \<longleftrightarrow> (\<exists>x xs. u = x # xs \<and> lower_cp x = lower_cp (of_char ch) \<and> reads cs xs)"
  by (cases u) (auto simp: reads_def str_def)

lemma reads_length: "reads cs u \<Longrightarrow> length u = length cs"
  unfolding reads_def str_def by (metis length_map)

lemma bt_lit_Cons:
  "bt (lit (ch # cs)) s c k = bt (Atom (Lit (of_char ch))) s c (\<lambda>s' c'. bt (lit cs) s' c' k)"
  by (simp add: lit_def bt_cat_Cons)

text \<open>A literal matches in one way only: the text begins with it, up to case, or it does not.\<close>

lemma bt_lit:
  "bt (lit cs) s c k =
     (if length cs \<le> length s \<and> reads cs (take (length cs) s) then k (drop (length cs) s) c
      else None)"
proof (induction cs arbitrary: s)
  case Nil
  show ?case by (simp add: lit_def bt_cat_Nil)
next
  case (Cons ch cs)
  show ?case
  proof (cases s)
    case Nil
    show ?thesis unfolding Nil bt_lit_Cons by (simp add: bt_Atom_Nil)
  next
    case (Cons x xs)
    show ?thesis unfolding Cons bt_lit_Cons
      by (simp add: bt_Atom_Cons Cons.IH reads_Cons)
  qed
qed

lemma bt_lit_run: "reads cs u \<Longrightarrow> bt (lit cs) (u @ v) c k = k v c"
  by (simp add: bt_lit reads_length)

text \<open>
  A greedy star over a class of characters. When what follows succeeds after the longest
  run, that is the result; when what follows fails after every part of the run, the star
  fails; and when what follows cannot fail, the star takes the longest run.
\<close>

lemma bt_star_class_run:
  "list_all (cmem cl) u \<Longrightarrow> v = [] \<or> \<not> cmem cl (hd v) \<Longrightarrow> k v c = Some x \<Longrightarrow>
   bt (Star (Atom cl)) (u @ v) c k = Some x"
proof (induction u)
  case Nil
  then show ?case by (cases v) (auto simp: bt_star_class_Nil bt_star_class_Cons)
next
  case (Cons y ys)
  then show ?case by (simp add: bt_star_class_Cons)
qed

lemma bt_plus_class_run:
  "u \<noteq> [] \<Longrightarrow> list_all (cmem cl) u \<Longrightarrow> v = [] \<or> \<not> cmem cl (hd v) \<Longrightarrow> k v c = Some x \<Longrightarrow>
   bt (plus (Atom cl)) (u @ v) c k = Some x"
  by (cases u) (simp_all add: bt_plus bt_Atom_Cons bt_star_class_run)

lemma bt_star_class_fail:
  "list_all (cmem cl) u \<Longrightarrow> v = [] \<or> \<not> cmem cl (hd v) \<Longrightarrow>
   (\<forall>u1 u2. u = u1 @ u2 \<longrightarrow> k (u2 @ v) c = None) \<Longrightarrow>
   bt (Star (Atom cl)) (u @ v) c k = None"
proof (induction u)
  case Nil
  then show ?case by (cases v) (auto simp: bt_star_class_Nil bt_star_class_Cons)
next
  case (Cons y ys)
  have "\<forall>u1 u2. ys = u1 @ u2 \<longrightarrow> k (u2 @ v) c = None"
  proof (intro allI impI)
    fix u1 u2 assume "ys = u1 @ u2"
    then have "y # ys = (y # u1) @ u2" by simp
    with Cons.prems(3) show "k (u2 @ v) c = None" by blast
  qed
  with Cons have "bt (Star (Atom cl)) (ys @ v) c k = None" by simp
  moreover from Cons.prems(3) have "k ((y # ys) @ v) c = None" by blast
  ultimately show ?case using Cons.prems(1) by (simp add: bt_star_class_Cons)
qed


section \<open>The classifier on a request in normalized form\<close>

lemma search_here: "match_here r s = Some c' \<Longrightarrow> search r s = Some c'"
  by (cases s) simp_all

lemma search_skip:
  "(\<forall>u1 u2. u = u1 @ u2 \<and> u2 \<noteq> [] \<longrightarrow> match_here r (u2 @ v) = None) \<Longrightarrow>
   search r (u @ v) = search r v"
proof (induction u)
  case Nil
  show ?case by simp
next
  case (Cons y ys)
  have "\<forall>u1 u2. ys = u1 @ u2 \<and> u2 \<noteq> [] \<longrightarrow> match_here r (u2 @ v) = None"
  proof (intro allI impI)
    fix u1 u2 assume "ys = u1 @ u2 \<and> u2 \<noteq> []"
    then have "y # ys = (y # u1) @ u2 \<and> u2 \<noteq> []" by simp
    with Cons.prems show "match_here r (u2 @ v) = None" by blast
  qed
  with Cons.IH have "search r (ys @ v) = search r v" by blast
  moreover from Cons.prems have "match_here r ((y # ys) @ v) = None" by blast
  ultimately show ?case by simp
qed

lemma bt_star_class_stop:
  "v = [] \<or> \<not> cmem cl (hd v) \<Longrightarrow> bt (Star (Atom cl)) v c k = k v c"
  by (cases v) (auto simp: bt_star_class_Nil bt_star_class_Cons)

lemma bt_comma_groups_skip:
  "s = [] \<or> hd s \<noteq> 44 \<Longrightarrow> bt (Star comma_group) s c k = k s c"
  by (subst bt.simps, cases s)
     (auto simp: comma_group_def bt_cat_Cons bt_Atom_Nil bt_Atom_Cons)

lemma cmem_class [simp]:
  "cmem Digit = is_digit" "cmem Space = is_space" "cmem Word = is_word"
  by (rule ext, simp)+

lemma digits_not_Nil: "digits s \<Longrightarrow> s \<noteq> []"
  by (simp add: digits_def)

text \<open>A number followed by something that is neither a digit nor a point is taken whole.\<close>

lemma bt_number_run:
  assumes "number n" and "v = [] \<or> (\<not> is_digit (hd v) \<and> hd v \<noteq> 46)" and "k v c = Some x"
  shows "bt number_re (n @ v) c k = Some x"
proof -
  from assms(1) obtain i f where n: "n = i @ f" "digits i" "f = [] \<or> (\<exists>d. f = 46 # d \<and> digits d)"
    unfolding number_def by blast
  let ?F = "cat [Atom (Lit 46), plus (Atom Digit)]"
  let ?K = "\<lambda>s' c'. bt (cat [opt ?F]) s' c' k"
  have "?K (f @ v) c = Some x"
  proof (cases "f = []")
    case True
    have "bt ?F v c (\<lambda>s' c'. bt (cat []) s' c' k) = None"
      using assms(2) by (cases v) (auto simp: bt_cat_Cons bt_Atom_Nil bt_Atom_Cons)
    with True assms(3) show ?thesis by (simp add: bt_cat_Cons bt_opt bt_cat_Nil)
  next
    case False
    with n(3) obtain d where d: "f = 46 # d" "digits d" by blast
    have "bt (plus (Atom Digit)) (d @ v) c (\<lambda>s' c'. bt (cat []) s' c' (\<lambda>s' c'. bt (cat []) s' c' k)) = Some x"
      using d(2) assms(2,3) by (intro bt_plus_class_run) (auto simp: digits_def bt_cat_Nil)
    then have "bt ?F (f @ v) c (\<lambda>s' c'. bt (cat []) s' c' k) = Some x"
      by (simp add: d(1) bt_cat_Cons bt_Atom_Cons)
    then show ?thesis by (simp add: bt_cat_Cons bt_opt)
  qed
  moreover have "f @ v = [] \<or> \<not> cmem Digit (hd (f @ v))"
    using n(3) assms(2) by (auto simp: is_digit_def)
  ultimately have "bt (plus (Atom Digit)) (i @ f @ v) c ?K = Some x"
    using n(2) by (intro bt_plus_class_run) (auto simp: digits_def)
  then show ?thesis by (simp add: number_re_def bt_cat_Cons n(1))
qed

lemma bt_group_number_run:
  assumes "number n" and "v = [] \<or> (\<not> is_digit (hd v) \<and> hd v \<noteq> 46)"
    and "k v (c(g := Some n)) = Some x"
  shows "bt (Group g number_re) (n @ v) c k = Some x"
proof -
  let ?K = "\<lambda>s' c'. k s' (c'(g := Some (take (length (n @ v) - length s') (n @ v))))"
  have "?K v c = Some x"
    using assms(3) by simp
  from bt_number_run[of n v ?K c x, OF assms(1,2) this] show ?thesis by (simp add: bt.simps(7))
qed

lemma word_head: "word p \<Longrightarrow> is_word (hd p) \<and> \<not> is_space (hd p)"
  by (cases p) (auto simp: word_def is_word_def is_space_def)

lemma reads_refl [simp]: "reads cs (str cs)"
  by (simp add: reads_def)

text \<open>One element of a concatenation at a time.\<close>

lemma cat_plus_run:
  "u \<noteq> [] \<Longrightarrow> list_all (cmem cl) u \<Longrightarrow> v = [] \<or> \<not> cmem cl (hd v) \<Longrightarrow>
   bt (cat rs) v c k = Some x \<Longrightarrow> bt (cat (plus (Atom cl) # rs)) (u @ v) c k = Some x"
  unfolding bt_cat_Cons by (rule bt_plus_class_run)

lemma cat_star_run:
  "list_all (cmem cl) u \<Longrightarrow> v = [] \<or> \<not> cmem cl (hd v) \<Longrightarrow>
   bt (cat rs) v c k = Some x \<Longrightarrow> bt (cat (Star (Atom cl) # rs)) (u @ v) c k = Some x"
  unfolding bt_cat_Cons by (rule bt_star_class_run)

lemma cat_lit_run: "reads cs u \<Longrightarrow> bt (cat (lit cs # rs)) (u @ v) c k = bt (cat rs) v c k"
  unfolding bt_cat_Cons by (rule bt_lit_run)

lemma cat_opt_run:
  "bt (cat (r # rs)) s c k = Some x \<Longrightarrow> bt (cat (opt r # rs)) s c k = Some x"
  by (simp add: bt_cat_Cons bt_opt)

lemma cat_opt_skip:
  "bt (cat (r # rs)) s c k = None \<Longrightarrow> bt (cat (opt r # rs)) s c k = bt (cat rs) s c k"
  by (simp add: bt_cat_Cons bt_opt)

lemma cat_cat: "bt (cat (cat rs # ts)) s c k = bt (cat (rs @ ts)) s c k"
  by (simp add: bt_cat_Cons bt_cat_append)

lemma cat_group:
  "bt (cat (Group n a # rs)) s c k =
     bt a s c (\<lambda>s' c'. bt (cat rs) s' (c'(n := Some (take (length s - length s') s))) k)"
  by (simp add: bt_cat_Cons bt.simps(7))

lemma cat_group_number_run:
  assumes "number n" and "v = [] \<or> (\<not> is_digit (hd v) \<and> hd v \<noteq> 46)"
    and "bt (cat rs) v (c(g := Some n)) k = Some x"
  shows "bt (cat (Group g number_re # rs)) (n @ v) c k = Some x"
  unfolding bt_cat_Cons using assms by (intro bt_group_number_run)

text \<open>The quantity pattern on "<digits> tons of <word>", followed by no further word character.\<close>

lemma tons_of_pieces:
  "str '' tons of '' = str '' '' @ str ''ton'' @ str ''s'' @ str '' '' @ str ''of'' @ str '' ''"
  by (simp add: str_def)

lemma match_qty_normal:
  assumes "digits qs" and "word p" and "rest = [] \<or> \<not> is_word (hd rest)"
  shows "match_here qty_re (qs @ str '' tons of '' @ p @ rest)
           = Some ((\<lambda>n. None)(1 := Some qs, 2 := Some p))"
proof -
  let ?K0 = "\<lambda>(s' :: pystr) (c' :: caps). Some c'"
  let ?G2 = "Group 2 (plus (Atom Word))"
  have p: "p @ rest = [] \<or> \<not> cmem Space (hd (p @ rest))"
    using assms(2) word_head[OF assms(2)] by (auto simp: word_def)
  have sp: "str '' '' \<noteq> []" "list_all (cmem Space) (str '' '')"
    by (simp_all add: str_def is_space_def)
  have a7: "bt (cat [?G2]) (p @ rest) c ?K0 = Some (c(2 := Some p))" for c
  proof -
    have "bt (cat []) rest (c(2 := Some (take (length (p @ rest) - length rest) (p @ rest)))) ?K0
          = Some (c(2 := Some p))"
      by (simp add: bt_cat_Nil)
    with assms(2,3) have "bt (plus (Atom Word)) (p @ rest) c
            (\<lambda>s' c'. bt (cat []) s' (c'(2 := Some (take (length (p @ rest) - length s') (p @ rest)))) ?K0)
          = Some (c(2 := Some p))"
      by (intro bt_plus_class_run) (auto simp: word_def)
    then show ?thesis by (simp add: cat_group)
  qed
  have a6: "bt (cat [plus (Atom Space), ?G2]) (str '' '' @ p @ rest) c ?K0 = Some (c(2 := Some p))" for c
    using sp p a7 by (intro cat_plus_run)
  have a5: "bt (cat [of_re, ?G2]) (str ''of'' @ str '' '' @ p @ rest) c ?K0 = Some (c(2 := Some p))" for c
    unfolding of_re_def
    by (rule cat_opt_run) (simp add: cat_cat cat_lit_run a6)
  have o: "str ''of'' @ str '' '' @ p @ rest = [] \<or> \<not> cmem Space (hd (str ''of'' @ str '' '' @ p @ rest))"
    by (simp add: str_def is_space_def)
  have a4: "bt (cat [plus (Atom Space), of_re, ?G2]) (str '' '' @ str ''of'' @ str '' '' @ p @ rest) c ?K0
              = Some (c(2 := Some p))" for c
    using sp o a5 by (intro cat_plus_run)
  have a3: "bt (cat [opt (lit ''s''), plus (Atom Space), of_re, ?G2])
              (str ''s'' @ str '' '' @ str ''of'' @ str '' '' @ p @ rest) c ?K0
              = Some (c(2 := Some p))" for c
    by (rule cat_opt_run) (simp add: cat_lit_run a4)
  have a2: "bt (cat [lit ''ton'', opt (lit ''s''), plus (Atom Space), of_re, ?G2])
              (str ''ton'' @ str ''s'' @ str '' '' @ str ''of'' @ str '' '' @ p @ rest) c ?K0
              = Some (c(2 := Some p))" for c
    by (simp add: cat_lit_run a3)
  let ?T = "str '' tons of '' @ p @ rest"
  have t': "str ''ton'' @ str ''s'' @ str '' '' @ str ''of'' @ str '' '' @ p @ rest = []
      \<or> \<not> cmem Space (hd (str ''ton'' @ str ''s'' @ str '' '' @ str ''of'' @ str '' '' @ p @ rest))"
    by (simp add: str_def is_space_def)
  have a1: "bt (cat (tons_re @ [of_re, ?G2])) ?T c ?K0 = Some (c(2 := Some p))" for c
    unfolding tons_re_def tons_of_pieces append.simps append_assoc
    using sp t' a2 by (intro cat_plus_run)
  have t: "?T = [] \<or> \<not> cmem Digit (hd ?T)" "?T = [] \<or> hd ?T \<noteq> 44"
    by (simp_all add: str_def is_digit_def)
  let ?KG = "\<lambda>s' c'. bt (cat (tons_re @ [of_re, ?G2])) s'
               (c'(1 := Some (take (length (qs @ ?T) - length s') (qs @ ?T)))) ?K0"
  have "bt (cat [Star comma_group]) ?T (\<lambda>n. None) ?KG = Some ((\<lambda>n. None)(1 := Some qs, 2 := Some p))"
    using t(2) a1[of "(\<lambda>n. None)(1 := Some qs)"]
    by (simp add: bt_cat_Cons bt_cat_Nil bt_comma_groups_skip)
  with assms(1) t(1)
  have "bt (cat [plus (Atom Digit), Star comma_group]) (qs @ ?T) (\<lambda>n. None) ?KG
          = Some ((\<lambda>n. None)(1 := Some qs, 2 := Some p))"
    by (intro cat_plus_run) (auto simp: digits_def)
  then show ?thesis
    by (simp add: match_here_def qty_re_def cat_group integer_re_def)
qed

text \<open>The emissions pattern: where it cannot start, and on "<number> tCO2e, ...".\<close>

lemma match_em_nondigit: "s = [] \<or> \<not> is_digit (hd s) \<Longrightarrow> match_here em_re s = None"
  by (cases s)
     (auto simp: match_here_def em_re_def bt.simps(7) number_re_def bt_cat_Cons bt_plus bt_Atom_Nil
        bt_Atom_Cons)

lemma search_em_skip_nondigits:
  assumes "list_all (\<lambda>x. \<not> is_digit x) u"
  shows "search em_re (u @ v) = search em_re v"
proof (rule search_skip, intro allI impI)
  fix u1 u2 assume h: "u = u1 @ u2 \<and> u2 \<noteq> []"
  with assms have "\<not> is_digit (hd u2)" by (cases u2) auto
  with h show "match_here em_re (u2 @ v) = None"
    by (intro match_em_nondigit) simp
qed

lemma bt_lit_head_fail:
  "s = [] \<or> lower_cp (hd s) \<noteq> lower_cp (of_char ch) \<Longrightarrow> bt (lit (ch # cs)) s c k = None"
  by (cases s) (auto simp: bt_lit_Cons bt_Atom_Nil bt_Atom_Cons)

lemma em_tail_fails_at_tons:
  assumes "list_all is_digit b"
  shows "bt (cat [Star (Atom Space), lit ''tCO2'', opt (lit ''e''), opt (lit ''/ton'')])
           (b @ str '' tons of '' @ r) c k = None"
proof (cases b)
  case Nil
  then show ?thesis
    by (simp add: str_def bt_cat_Cons bt_star_class_Cons bt_lit reads_Cons is_space_def lower_cp_def)
next
  case (Cons z zs)
  with assms have "is_digit z" by simp
  then have "\<not> is_space z" "lower_cp z \<noteq> lower_cp (of_char CHR ''t'')"
    by (auto simp: is_digit_def is_space_def lower_cp_def)
  with Cons show ?thesis
    by (simp add: bt_cat_Cons bt_star_class_Cons bt_lit_head_fail)
qed

lemma match_em_digits_tons:
  assumes "u2 \<noteq> []" and "list_all is_digit u2"
  shows "match_here em_re (u2 @ str '' tons of '' @ r) = None"
proof -
  from assms obtain y ys where u2: "u2 = y # ys" "is_digit y" "list_all is_digit ys"
    by (cases u2) auto
  let ?T = "str '' tons of '' @ r"
  let ?tail = "[Star (Atom Space), lit ''tCO2'', opt (lit ''e''), opt (lit ''/ton'')]"
  let ?KG = "\<lambda>s' c'. bt (cat ?tail) s'
               (c'(1 := Some (take (length (u2 @ ?T) - length s') (u2 @ ?T)))) (\<lambda>s' c'. Some c')"
  let ?KK = "\<lambda>s' c'. bt (cat [opt (cat [Atom (Lit 46), plus (Atom Digit)])]) s' c' ?KG"
  have "\<forall>a b. ys = a @ b \<longrightarrow> ?KK (b @ ?T) (\<lambda>n. None) = None"
  proof (intro allI impI)
    fix a b assume "ys = a @ b"
    with u2(3) have b: "list_all is_digit b" by simp
    have "hd (b @ ?T) \<noteq> 46"
      using b by (cases b) (auto simp: str_def is_digit_def)
    moreover have "b @ ?T \<noteq> []" by (simp add: str_def)
    ultimately have "bt (cat [Atom (Lit 46), plus (Atom Digit)]) (b @ ?T) (\<lambda>n. None)
                       (\<lambda>s' c'. bt (cat []) s' c' ?KG) = None"
      by (cases "b @ ?T") (auto simp: bt_cat_Cons bt_Atom_Cons)
    then show "?KK (b @ ?T) (\<lambda>n. None) = None"
      using em_tail_fails_at_tons[OF b]
      by (simp add: bt_cat_Cons[of "opt _"] bt_opt bt_cat_Nil)
  qed
  moreover have "?T = [] \<or> \<not> cmem Digit (hd ?T)"
    by (simp add: str_def is_digit_def)
  ultimately have "bt (Star (Atom Digit)) (ys @ ?T) (\<lambda>n. None) ?KK = None"
    using u2(3) by (intro bt_star_class_fail) simp_all
  with u2(1,2) show ?thesis
    by (simp add: match_here_def em_re_def cat_group number_re_def bt_cat_Cons[of "plus _"]
        bt_plus bt_Atom_Cons)
qed

lemma search_em_skip_digits_tons:
  assumes "list_all is_digit qs"
  shows "search em_re (qs @ str '' tons of '' @ r) = search em_re (str '' tons of '' @ r)"
proof (rule search_skip, intro allI impI)
  fix u1 u2 assume h: "qs = u1 @ u2 \<and> u2 \<noteq> []"
  with assms have "list_all is_digit u2" by simp
  with h show "match_here em_re (u2 @ str '' tons of '' @ r) = None"
    by (intro match_em_digits_tons) simp_all
qed

lemma match_em_normal:
  assumes "number en"
  shows "match_here em_re (en @ str '' tCO2e, origin '' @ r) = Some ((\<lambda>n. None)(1 := Some en))"
proof -
  let ?V = "str '' tCO2e, origin '' @ r"
  have v: "?V = [] \<or> (\<not> is_digit (hd ?V) \<and> hd ?V \<noteq> 46)"
    by (simp add: str_def is_digit_def)
  have "bt (cat [Star (Atom Space), lit ''tCO2'', opt (lit ''e''), opt (lit ''/ton'')]) ?V c
          (\<lambda>s' c'. Some c') = Some c" for c
    by (simp add: str_def bt_cat_Cons bt_cat_Nil bt_star_class_Cons bt_lit bt_opt reads_Cons
        is_space_def lower_cp_def)
  with assms v show ?thesis
    unfolding match_here_def em_re_def by (intro cat_group_number_run)
qed

text \<open>The origin pattern: it starts at a keyword only.\<close>

lemma keyword_here_iff:
  "keyword_here s \<longleftrightarrow>
     (6 \<le> length s \<and> reads ''origin'' (take 6 s))
     \<or> (4 \<le> length s \<and> reads ''paid'' (take 4 s))
     \<or> (4 \<le> length s \<and> reads ''cost'' (take 4 s))"
  unfolding keyword_here_def using reads_length[of "''origin''" "take 6 s"]
    reads_length[of "''paid''" "take 4 s"] reads_length[of "''cost''" "take 4 s"]
  by auto

lemma keyword_here_ex: "keyword_here s \<longleftrightarrow> (\<exists>kw r. s = kw @ r \<and> keyword kw)"
proof
  assume "keyword_here s"
  moreover have "s = take n s @ drop n s" for n by simp
  ultimately show "\<exists>kw r. s = kw @ r \<and> keyword kw"
    unfolding keyword_here_def keyword_def by metis
next
  assume "\<exists>kw r. s = kw @ r \<and> keyword kw"
  then obtain kw r where s: "s = kw @ r" and kw: "keyword kw" by blast
  from kw consider "reads ''origin'' kw" | "reads ''paid'' kw" | "reads ''cost'' kw"
    unfolding keyword_def by blast
  then show "keyword_here s"
  proof cases
    case 1
    from reads_length[OF 1] have "length kw = 6" by simp
    with 1 s show ?thesis by (simp add: keyword_here_def)
  next
    case 2
    from reads_length[OF 2] have "length kw = 4" by simp
    with 2 s show ?thesis by (simp add: keyword_here_def)
  next
    case 3
    from reads_length[OF 3] have "length kw = 4" by simp
    with 3 s show ?thesis by (simp add: keyword_here_def)
  qed
qed

lemma mentions_keyword_part: "keyword kw \<Longrightarrow> mentions_keyword (u @ kw @ t)"
proof (induction u)
  case Nil
  then have "keyword_here (kw @ t)" unfolding keyword_here_ex by blast
  then show ?case by (cases "kw @ t") (simp_all add: keyword_here_def reads_def str_def)
next
  case (Cons x u)
  then show ?case by simp
qed

lemma bt_keyword_fail:
  assumes "\<not> keyword_here s"
  shows "bt keyword_re s c k = None"
proof -
  from assms have a: "\<not> (length ''origin'' \<le> length s \<and> reads ''origin'' (take (length ''origin'') s))"
    and b: "\<not> (length ''paid'' \<le> length s \<and> reads ''paid'' (take (length ''paid'') s))"
    and d: "\<not> (length ''cost'' \<le> length s \<and> reads ''cost'' (take (length ''cost'') s))"
    by (simp_all add: keyword_here_iff eval_nat_numeral)
  have "bt (lit ''origin'') s c k = None" using a by (subst bt_lit) auto
  moreover have "bt (lit ''paid'') s c k = None" using b by (subst bt_lit) auto
  moreover have "bt (lit ''cost'') s c k = None" using d by (subst bt_lit) auto
  ultimately show ?thesis by (simp add: keyword_re_def bt.simps(4))
qed

lemma match_origin_no_keyword: "\<not> keyword_here s \<Longrightarrow> match_here origin_re s = None"
  by (simp add: match_here_def origin_re_def bt_cat_Cons[of keyword_re] bt_keyword_fail)

lemma keyword_here_head:
  "keyword_here s \<Longrightarrow> s \<noteq> [] \<and> (lower_cp (hd s) = 111 \<or> lower_cp (hd s) = 112 \<or> lower_cp (hd s) = 99)"
  by (cases s) (auto simp: keyword_here_iff reads_Cons lower_cp_def)

lemma search_origin_skip_plain:
  assumes "list_all (\<lambda>x. lower_cp x \<noteq> 111 \<and> lower_cp x \<noteq> 112 \<and> lower_cp x \<noteq> 99) u"
  shows "search origin_re (u @ v) = search origin_re v"
proof (rule search_skip, intro allI impI)
  fix u1 u2 assume h: "u = u1 @ u2 \<and> u2 \<noteq> []"
  with assms have "lower_cp (hd u2) \<noteq> 111 \<and> lower_cp (hd u2) \<noteq> 112 \<and> lower_cp (hd u2) \<noteq> 99"
    by (cases u2) auto
  with h have "\<not> keyword_here (u2 @ v)"
    using keyword_here_head[of "u2 @ v"] by auto
  then show "match_here origin_re (u2 @ v) = None"
    by (rule match_origin_no_keyword)
qed

lemma search_origin_step:
  "\<not> keyword_here (x # xs) \<Longrightarrow> search origin_re (x # xs) = search origin_re xs"
  by (simp add: match_origin_no_keyword)

lemma search_origin_skip_tons_of:
  "search origin_re (str '' tons of '' @ v) = search origin_re v"
  by (simp add: str_def search_origin_step keyword_here_iff reads_Cons lower_cp_def
      del: search.simps)

lemma search_origin_skip_comma:
  "search origin_re (str '', '' @ v) = search origin_re v"
  by (simp add: str_def search_origin_step keyword_here_iff reads_Cons lower_cp_def
      del: search.simps)

lemma search_origin_skip_unit:
  "search origin_re (str '' tCO2e, '' @ v) = search origin_re v"
  by (simp add: str_def search_origin_step keyword_here_iff reads_Cons lower_cp_def
      del: search.simps)

lemma keyword_letters: "keyword kw \<Longrightarrow> 44 \<notin> set kw"
proof
  assume kw: "keyword kw" and "44 \<in> set kw"
  then have "lower_cp 44 \<in> set (map lower_cp kw)" by (metis image_eqI set_map)
  with kw show False
    unfolding keyword_def reads_def by (auto simp: str_def lower_cp_def)
qed

lemma search_origin_skip_product:
  assumes "plain_product p"
  shows "search origin_re (p @ 44 # v) = search origin_re (44 # v)"
proof (rule search_skip, intro allI impI)
  fix u1 u2 assume h: "p = u1 @ u2 \<and> u2 \<noteq> []"
  have "\<not> keyword_here (u2 @ 44 # v)"
  proof
    assume "keyword_here (u2 @ 44 # v)"
    then obtain kw r where e: "u2 @ 44 # v = kw @ r" and kw: "keyword kw"
      unfolding keyword_here_ex by blast
    from e consider t where "u2 = kw @ t" | t where "t \<noteq> []" "kw = u2 @ t" "44 # v = t @ r"
      by (auto simp: append_eq_append_conv2) metis
    then show False
    proof cases
      case 1
      with h have "p = u1 @ kw @ t" by simp
      with assms mentions_keyword_part[OF kw] show False unfolding plain_product_def by blast
    next
      case 2
      then have "44 \<in> set kw" by (cases t) auto
      with keyword_letters[OF kw] show False by blast
    qed
  qed
  then show "match_here origin_re (u2 @ 44 # v) = None"
    by (rule match_origin_no_keyword)
qed

lemma bt_keyword_origin:
  "k v c = Some x \<Longrightarrow> bt keyword_re (str ''origin'' @ v) c k = Some x"
  by (simp add: keyword_re_def bt.simps(4) bt_lit_run)

lemma match_origin_normal:
  assumes "number on"
  shows "match_here origin_re (str ''origin '' @ [euro] @ on) = Some ((\<lambda>n. None)(1 := Some on))"
proof -
  let ?K0 = "\<lambda>(s' :: pystr) (c' :: caps). Some c'"
  let ?c0 = "\<lambda>n :: nat. None :: pystr option"
  let ?G = "Group 1 number_re"
  have g: "bt (cat [?G]) on c ?K0 = Some (c(1 := Some on))" for c
  proof -
    have "bt (cat (?G # [])) (on @ []) c ?K0 = Some (c(1 := Some on))"
      by (rule cat_group_number_run) (simp_all add: assms bt_cat_Nil)
    then show ?thesis by simp
  qed
  have e: "bt (cat [opt (Atom (Lit euro)), ?G]) (euro # on) c ?K0 = Some (c(1 := Some on))" for c
    using g[of c] by (intro cat_opt_run) (simp add: bt_cat_Cons[of "Atom _"] bt_Atom_Cons)
  have s: "bt (cat [opt (Atom (Lit euro)), ?G]) (32 # euro # on) c ?K0 = None" for c
    by (simp add: bt_cat_Cons bt_opt bt_Atom_Cons bt.simps(7) number_re_def bt_plus euro_def
        is_digit_def)
  have "bt (cat [LazyStar (Atom Dot), opt (Atom (Lit euro)), ?G]) (32 # euro # on) ?c0 ?K0
          = Some (?c0(1 := Some on))"
    using e[of ?c0] s[of ?c0] by (simp add: bt_cat_Cons[of "LazyStar _"] bt_lazy_class_Cons)
  then have "bt (cat [keyword_re, LazyStar (Atom Dot), opt (Atom (Lit euro)), ?G])
               (str ''origin'' @ 32 # euro # on) ?c0 ?K0 = Some (?c0(1 := Some on))"
    unfolding bt_cat_Cons[of keyword_re] by (rule bt_keyword_origin)
  moreover have "str ''origin '' @ [euro] @ on = str ''origin'' @ 32 # euro # on"
    by (simp add: str_def)
  ultimately show ?thesis by (simp add: match_here_def origin_re_def)
qed

text \<open>The conversions of the groups.\<close>

lemma lower_plain_product: "plain_product p \<Longrightarrow> lower p = p"
  unfolding plain_product_def lower_def
  by (intro map_idI) (auto simp: list_all_iff lower_cp_def)

lemma word_plain_product: "plain_product p \<Longrightarrow> word p"
  unfolding plain_product_def word_def by (auto simp: list_all_iff is_word_def)

lemma strip_commas_digits: "digits qs \<Longrightarrow> strip_commas qs = qs"
  unfolding digits_def strip_commas_def by (auto simp: list_all_iff is_digit_def filter_id_conv)

lemma plain_product_not_digit: "plain_product p \<Longrightarrow> list_all (\<lambda>x. \<not> is_digit x) p"
  unfolding plain_product_def by (auto simp: list_all_iff is_digit_def)

lemma digits_no_keyword_head:
  "list_all is_digit u \<Longrightarrow>
   list_all (\<lambda>x. lower_cp x \<noteq> 111 \<and> lower_cp x \<noteq> 112 \<and> lower_cp x \<noteq> 99) u"
  by (auto simp: list_all_iff is_digit_def lower_cp_def)

lemma number_no_keyword_head:
  "number n \<Longrightarrow>
   list_all (\<lambda>x. lower_cp x \<noteq> 111 \<and> lower_cp x \<noteq> 112 \<and> lower_cp x \<noteq> 99) n"
proof -
  assume "number n"
  then have "\<forall>x\<in>set n. is_digit x \<or> x = 46"
    unfolding number_def digits_def by (auto simp: list_all_iff)
  moreover have "lower_cp x \<noteq> 111 \<and> lower_cp x \<noteq> 112 \<and> lower_cp x \<noteq> 99"
    if "is_digit x \<or> x = 46" for x
    using that by (auto simp: is_digit_def lower_cp_def)
  ultimately show ?thesis unfolding list_all_iff by blast
qed

text \<open>The three searches on the normalized form.\<close>

lemma search_qty_normalized:
  assumes "plain_product p" and "digits qs"
  shows "search qty_re (normalized p qs en on) = Some ((\<lambda>n. None)(1 := Some qs, 2 := Some p))"
  unfolding normalized_def
  by (intro search_here match_qty_normal assms word_plain_product) (simp add: str_def is_word_def)

lemma search_em_normalized:
  assumes "plain_product p" and "digits qs" and "number en"
  shows "search em_re (normalized p qs en on) = Some ((\<lambda>n. None)(1 := Some en))"
proof -
  let ?r = "en @ str '' tCO2e, origin '' @ [euro] @ on"
  let ?u = "str '' tons of '' @ p @ str '', ''"
  have "search em_re (normalized p qs en on) = search em_re (str '' tons of '' @ p @ str '', '' @ ?r)"
    unfolding normalized_def using assms(2)
    by (intro search_em_skip_digits_tons) (simp add: digits_def)
  also have "\<dots> = search em_re (?u @ ?r)" by simp
  also have "\<dots> = search em_re ?r"
    using plain_product_not_digit[OF assms(1)]
    by (intro search_em_skip_nondigits) (simp add: str_def is_digit_def)
  also have "\<dots> = Some ((\<lambda>n. None)(1 := Some en))"
    by (intro search_here match_em_normal assms)
  finally show ?thesis .
qed

lemma search_origin_normalized:
  assumes "plain_product p" and "digits qs" and "number en" and "number on"
  shows "search origin_re (normalized p qs en on) = Some ((\<lambda>n. None)(1 := Some on))"
proof -
  let ?t = "str ''origin '' @ [euro] @ on"
  let ?r4 = "str '' tCO2e, '' @ ?t"
  let ?r3 = "en @ ?r4"
  let ?r2 = "str '', '' @ ?r3"
  let ?r1 = "p @ ?r2"
  have n: "normalized p qs en on = qs @ str '' tons of '' @ ?r1"
    by (simp add: normalized_def str_def)
  have c: "?r2 = 44 # 32 # ?r3" by (simp add: str_def)
  have "search origin_re (normalized p qs en on) = search origin_re (str '' tons of '' @ ?r1)"
    unfolding n using assms(2)
    by (intro search_origin_skip_plain digits_no_keyword_head) (simp add: digits_def)
  also have "\<dots> = search origin_re ?r1" by (rule search_origin_skip_tons_of)
  also have "\<dots> = search origin_re ?r2"
    unfolding c by (rule search_origin_skip_product[OF assms(1)])
  also have "\<dots> = search origin_re ?r3" by (rule search_origin_skip_comma)
  also have "\<dots> = search origin_re ?r4"
    by (intro search_origin_skip_plain number_no_keyword_head assms)
  also have "\<dots> = search origin_re ?t" by (rule search_origin_skip_unit)
  also have "\<dots> = Some ((\<lambda>n. None)(1 := Some on))"
    by (intro search_here match_origin_normal assms)
  finally show ?thesis .
qed

text \<open>
  Claim C9, as amended. The text

    <quantity> tons of <product>, <emissions> tCO2e, origin E<price>     (E the euro sign)

  with the quantity written in at most 4300 decimal digits, the emissions and the price as
  decimal numerals, and the product a word of lower-case letters and underscores no part of
  which reads "origin", "paid" or "cost", is read back by \<open>extract_cbam_request\<close> as the
  request it renders: that product, that quantity, those emissions and that price. With a
  quantity of more than 4300 digits the classifier raises \<open>ValueError\<close>.
\<close>

theorem extract_cbam_request_normalized:
  assumes "plain_product p" and "digits qs" and "number en" and "number on"
  shows "extract_cbam_request (normalized p qs en on)
           = (if length qs \<le> INT_MAX_STR_DIGITS
              then Inr \<lparr>product = Some p, quantity = Some (decimal qs),
                        emissions = Some (py_float en), origin_price = py_float on\<rparr>
              else Inl ValueError)"
  unfolding extract_cbam_request_def
  by (simp add: search_qty_normalized[OF assms(1,2)] search_em_normalized[OF assms(1,2,3)]
      search_origin_normalized[OF assms] group_def lower_plain_product[OF assms(1)]
      strip_commas_digits[OF assms(2)] py_int_def)

text \<open>
  The example of the specification, "120 tons of steel, 2.3 tCO2e, origin E10": steel, 120,
  2.3 and 10; and the same request with a quantity of 4301 digits.
\<close>

lemma steel_is_plain: "plain_product (str ''steel'')"
  by (simp add: plain_product_def str_def keyword_here_def reads_def lower_cp_def)

lemma numerals_of_example:
  "digits (str ''120'')" "number (str ''2.3'')" "number (str ''10'')"
proof -
  show "digits (str ''120'')" by (simp add: digits_def str_def is_digit_def)
  have "str ''2.3'' = str ''2'' @ 46 # str ''3''" by (simp add: str_def)
  moreover have "digits (str ''2'')" "digits (str ''3'')"
    by (simp_all add: digits_def str_def is_digit_def)
  ultimately show "number (str ''2.3'')" unfolding number_def by blast
  have "str ''10'' = str ''10'' @ []" by simp
  moreover have "digits (str ''10'')" by (simp add: digits_def str_def is_digit_def)
  ultimately show "number (str ''10'')" unfolding number_def by blast
qed

lemma values_of_example:
  "decimal (str ''120'') = 120" "py_float (str ''2.3'') = 2.3" "py_float (str ''10'') = 10"
  by (simp_all add: decimal_def py_float_def str_def digit_val_def)

theorem extract_cbam_request_normalized_witness:
  "plain_product (str ''steel'') \<and> digits (str ''120'') \<and> number (str ''2.3'')
   \<and> number (str ''10'')
   \<and> normalized (str ''steel'') (str ''120'') (str ''2.3'') (str ''10'')
       = str ''120 tons of steel, 2.3 tCO2e, origin '' @ [euro] @ str ''10''
   \<and> extract_cbam_request (str ''120 tons of steel, 2.3 tCO2e, origin '' @ [euro] @ str ''10'')
       = Inr \<lparr>product = Some (str ''steel''), quantity = Some 120, emissions = Some 2.3,
              origin_price = 10\<rparr>
   \<and> digits (replicate 4301 49)
   \<and> extract_cbam_request (normalized (str ''steel'') (replicate 4301 49) (str ''2.3'') (str ''10''))
       = Inl ValueError"
proof -
  define long where "long = replicate 4301 (49 :: nat)"
  have n: "normalized (str ''steel'') (str ''120'') (str ''2.3'') (str ''10'')
             = str ''120 tons of steel, 2.3 tCO2e, origin '' @ [euro] @ str ''10''"
    by (simp add: normalized_def str_def)
  have l: "length (str ''120'') \<le> INT_MAX_STR_DIGITS" by (simp add: str_def INT_MAX_STR_DIGITS_def)
  have dl: "digits long" "\<not> length long \<le> INT_MAX_STR_DIGITS"
    by (simp_all add: long_def digits_def is_digit_def INT_MAX_STR_DIGITS_def list_all_iff)
  from extract_cbam_request_normalized[OF steel_is_plain numerals_of_example] l
  have a: "extract_cbam_request (str ''120 tons of steel, 2.3 tCO2e, origin '' @ [euro] @ str ''10'')
       = Inr \<lparr>product = Some (str ''steel''), quantity = Some 120, emissions = Some 2.3,
              origin_price = 10\<rparr>"
    unfolding n values_of_example by simp
  from extract_cbam_request_normalized[OF steel_is_plain dl(1) numerals_of_example(2,3)] dl(2)
  have b: "extract_cbam_request (normalized (str ''steel'') long (str ''2.3'') (str ''10''))
       = Inl ValueError"
    by simp
  from a b dl(1) steel_is_plain numerals_of_example n
  have "plain_product (str ''steel'') \<and> digits (str ''120'') \<and> number (str ''2.3'')
   \<and> number (str ''10'')
   \<and> normalized (str ''steel'') (str ''120'') (str ''2.3'') (str ''10'')
       = str ''120 tons of steel, 2.3 tCO2e, origin '' @ [euro] @ str ''10''
   \<and> extract_cbam_request (str ''120 tons of steel, 2.3 tCO2e, origin '' @ [euro] @ str ''10'')
       = Inr \<lparr>product = Some (str ''steel''), quantity = Some 120, emissions = Some 2.3,
              origin_price = 10\<rparr>
   \<and> digits long
   \<and> extract_cbam_request (normalized (str ''steel'') long (str ''2.3'') (str ''10''))
       = Inl ValueError"
    by simp
  then show ?thesis unfolding long_def .
qed

text \<open>
  Claim C9, as stated, fails for a product that contains a keyword of the origin pattern:
  the classifier reads "5 tons of costume" as 5 tons of the product "costume"; in the
  normalized form "5 tons of costume, 2.3 tCO2e, origin E10" the origin pattern matches from
  the "cost" of the product and takes the first number that follows, the emissions 2.3, as the
  origin price, where the request has 10. It also fails for a product that reads as declared
  emissions: the classifier reads "5 tons of 9tco2" as 5 tons of the product "9tco2"; in the
  normalized form "5 tons of 9tco2, 2.3 tCO2e, origin E10" the emissions pattern matches in the
  product and takes 9 as the declared emissions, where the request has 2.3.
\<close>

theorem extract_cbam_request_normalized_costume:
  "extract_cbam_request (str ''5 tons of costume'')
     = Inr \<lparr>product = Some (str ''costume''), quantity = Some 5, emissions = None,
            origin_price = 0\<rparr>
   \<and> normalized (str ''costume'') (str ''5'') (str ''2.3'') (str ''10'')
       = str ''5 tons of costume, 2.3 tCO2e, origin '' @ [euro] @ str ''10''
   \<and> extract_cbam_request (normalized (str ''costume'') (str ''5'') (str ''2.3'') (str ''10''))
       = Inr \<lparr>product = Some (str ''costume''), quantity = Some 5, emissions = Some 2.3,
              origin_price = 2.3\<rparr>
   \<and> extract_cbam_request (normalized (str ''costume'') (str ''5'') (str ''2.3'') (str ''10''))
       \<noteq> Inr \<lparr>product = Some (str ''costume''), quantity = Some 5, emissions = Some 2.3,
              origin_price = 10\<rparr>
   \<and> product (projr (extract_cbam_request (str ''5 tons of 9tco2''))) = Some (str ''9tco2'')
   \<and> normalized (str ''9tco2'') (str ''5'') (str ''2.3'') (str ''10'')
       = str ''5 tons of 9tco2, 2.3 tCO2e, origin '' @ [euro] @ str ''10''
   \<and> extract_cbam_request (normalized (str ''9tco2'') (str ''5'') (str ''2.3'') (str ''10''))
       = Inr \<lparr>product = Some (str ''9tco2''), quantity = Some 5, emissions = Some 9,
              origin_price = 10\<rparr>
   \<and> extract_cbam_request (normalized (str ''9tco2'') (str ''5'') (str ''2.3'') (str ''10''))
       \<noteq> Inr \<lparr>product = Some (str ''9tco2''), quantity = Some 5, emissions = Some 2.3,
              origin_price = 10\<rparr>"
proof -
  have a: "extract_cbam_request (str ''5 tons of costume'')
             = Inr \<lparr>product = Some (str ''costume''), quantity = Some 5, emissions = None,
                    origin_price = 0\<rparr>"
    by (simp add: extract_cbam_request_def pattern_defs)
  have n: "normalized (str ''costume'') (str ''5'') (str ''2.3'') (str ''10'')
             = str ''5 tons of costume, 2.3 tCO2e, origin '' @ [euro] @ str ''10''"
    by (simp add: normalized_def str_def)
  have b: "extract_cbam_request (str ''5 tons of costume, 2.3 tCO2e, origin '' @ [euro] @ str ''10'')
             = Inr \<lparr>product = Some (str ''costume''), quantity = Some 5, emissions = Some 2.3,
                    origin_price = 2.3\<rparr>"
    by (simp add: extract_cbam_request_def pattern_defs)
  have a': "extract_cbam_request (str ''5 tons of 9tco2'')
             = Inr \<lparr>product = Some (str ''9tco2''), quantity = Some 5, emissions = Some 9,
                    origin_price = 0\<rparr>"
    by (simp add: extract_cbam_request_def pattern_defs)
  have n': "normalized (str ''9tco2'') (str ''5'') (str ''2.3'') (str ''10'')
             = str ''5 tons of 9tco2, 2.3 tCO2e, origin '' @ [euro] @ str ''10''"
    by (simp add: normalized_def str_def)
  have b': "extract_cbam_request (str ''5 tons of 9tco2, 2.3 tCO2e, origin '' @ [euro] @ str ''10'')
             = Inr \<lparr>product = Some (str ''9tco2''), quantity = Some 5, emissions = Some 9,
                    origin_price = 10\<rparr>"
    by (simp add: extract_cbam_request_def pattern_defs)
  show ?thesis unfolding n n' a a' b b' by simp
qed

section \<open>Orchestrator: choice of the path\<close>

lemma search_qty_groups:
  assumes "search qty_re text = Some c'"
  shows "\<exists>ds w. c' = (\<lambda>n. None)(1 := Some ds, 2 := Some w) \<and> thousands ds \<and> word w"
proof -
  from search_Some[OF assms] obtain i where "match_here qty_re (drop i text) = Some c'" by blast
  from match_here_Some[OF this] obtain u v where "matches qty_re u (\<lambda>n. None) c'" by blast
  then show ?thesis unfolding matches_qty qty_phrase_def by blast
qed

lemma extract_product_nonempty:
  "extract_cbam_request text = Inr r \<Longrightarrow> product r = Some p \<Longrightarrow> p \<noteq> []"
  by (auto simp: extract_cbam_request_def Let_def group_def lower_def word_def
      split: option.splits sum.splits dest!: search_qty_groups)

lemma extract_crash_iff:
  "extract_cbam_request text = Inl x \<longleftrightarrow>
     x = ValueError
     \<and> (\<exists>c. search qty_re text = Some c \<and> INT_MAX_STR_DIGITS < length (strip_commas (group c 1)))"
  by (auto simp: extract_cbam_request_def Let_def py_int_def split: option.splits sum.splits)

lemma quick_calculation_None_iff:
  "quick_calculation r w = Inr None \<longleftrightarrow>
     \<not> (truthy_str (product r) \<and> truthy_int (quantity r)
        \<and> (emissions r \<noteq> None \<or> (\<exists>p. product r = Some p \<and> dict_get DEFAULT_EMISSIONS p \<noteq> None)))"
  by (auto simp: quick_calculation_def truthy_str_def truthy_int_def Let_def
      split: option.splits sum.splits)

lemma quick_calculation_crash_iff:
  "quick_calculation r w = Inl x \<longleftrightarrow>
     x = OverflowError \<and> quick_calculation r w \<noteq> Inr None
     \<and> (\<exists>n. quantity r = Some n \<and> 2 ^ 1024 - 2 ^ 970 \<le> \<bar>n\<bar>)"
  by (auto simp: quick_calculation_def truthy_str_def truthy_int_def Let_def float_mul_int_def
      split: option.splits sum.splits if_splits)

lemma quick_calculation_shape:
  assumes "quick_calculation r w = Inr (Some w')"
  shows "\<exists>rep. w' = emit (Markdown Assistant (Report rep))
                       (w\<lparr>messages := messages w @ [(Assistant, Report rep)]\<rparr>)"
  using assms
  by (auto simp: quick_calculation_def Let_def split: if_splits option.splits sum.splits)

lemma documentation_answer_search:
  "\<exists>es. trace (documentation_answer E q w) = trace w @ Search q NUM_RESULTS # es"
proof -
  obtain pr src w1 where bp: "build_prompt E q w = ((pr, src), w1)" by (metis surj_pair)
  obtain answer w2 where lc: "llm_complete E MODEL_NAME pr 2 w1 = (answer, w2)" by force
  from bp obtain cs where cs: "trace w1 = trace w @ Search q NUM_RESULTS # cs"
    by (auto simp: build_prompt_def cortex_search_def Let_def split: sum.splits)
  from lc obtain es where es: "trace w2 = trace w1 @ es"
    unfolding llm_complete_def using llm_attempts_trace throttle_trace by (metis append.assoc)
  have "\<exists>fs. trace (documentation_answer E q w) = trace w2 @ fs"
    using bp lc by (auto simp: documentation_answer_def split: option.splits)
  then obtain fs where "trace (documentation_answer E q w) = trace w @ Search q NUM_RESULTS # (cs @ es @ fs)"
    using cs es by auto
  then show ?thesis by blast
qed

text \<open>
  Claim C2, as amended. For every question and every session, the turn ends in exactly one
  of four ways. When the quantity numeral that the classifier finds has more than 4300
  digits, \<open>int\<close> raises \<open>ValueError\<close>: the question is stored and shown and nothing else happens.
  Otherwise the calculator path is taken if and only if the classifier extracts a product
  and a quantity that is not zero, and declared emissions are present or the product is a
  key of the table of default emission factors. On that path, a quantity of
  \<open>2 ^ 1024 - 2 ^ 970\<close> or more raises \<open>OverflowError\<close> in the product with the emission factor,
  and again only the question is stored and shown; any other quantity appends the
  calculation as the assistant's message. Neither the search nor the completion service is
  called in these three cases. In every other case the turn goes on with the documentation
  answer: the search is called with the question and the completion service is called at
  least once.
\<close>

theorem ask_path_selection:
  "((\<exists>x. extract_cbam_request q = Inl x) \<longleftrightarrow>
      (\<exists>c. search qty_re q = Some c \<and> INT_MAX_STR_DIGITS < length (strip_commas (group c 1))))
   \<and> (\<forall>x. extract_cbam_request q = Inl x \<longrightarrow>
        x = ValueError
        \<and> messages (ask E q w) = messages w @ [(User, Text q)]
        \<and> calls (ask E q w) = calls w
        \<and> new_events w (ask E q w) = [Markdown User (Text q), Uncaught ValueError])
   \<and> (\<forall>r. extract_cbam_request q = Inr r \<longrightarrow>
        (quick_calculation r (post_question q w) \<noteq> Inr None \<longleftrightarrow>
           product r \<noteq> None
           \<and> (\<exists>n. quantity r = Some n \<and> n \<noteq> 0)
           \<and> (emissions r \<noteq> None
              \<or> (\<exists>p. product r = Some p \<and> dict_get DEFAULT_EMISSIONS p \<noteq> None)))
        \<and> ((\<exists>x. quick_calculation r (post_question q w) = Inl x) \<longleftrightarrow>
             quick_calculation r (post_question q w) \<noteq> Inr None
             \<and> (\<exists>n. quantity r = Some n \<and> 2 ^ 1024 - 2 ^ 970 \<le> \<bar>n\<bar>))
        \<and> (\<forall>x. quick_calculation r (post_question q w) = Inl x \<longrightarrow>
             x = OverflowError
             \<and> messages (ask E q w) = messages w @ [(User, Text q)]
             \<and> calls (ask E q w) = calls w
             \<and> new_events w (ask E q w) = [Markdown User (Text q), Uncaught OverflowError])
        \<and> (\<forall>w'. quick_calculation r (post_question q w) = Inr (Some w') \<longrightarrow>
             (\<exists>rep. messages (ask E q w) = messages w @ [(User, Text q), (Assistant, Report rep)]
                \<and> new_events w (ask E q w)
                    = [Markdown User (Text q), Markdown Assistant (Report rep)])
             \<and> calls (ask E q w) = calls w)
        \<and> (quick_calculation r (post_question q w) = Inr None \<longrightarrow>
             ask E q w = documentation_answer E q (post_question q w)
             \<and> (\<exists>es. new_events w (ask E q w) = Markdown User (Text q) # Search q NUM_RESULTS # es)
             \<and> calls w < calls (ask E q w)))"
proof (intro conjI allI impI)
  show "(\<exists>x. extract_cbam_request q = Inl x) \<longleftrightarrow>
      (\<exists>c. search qty_re q = Some c \<and> INT_MAX_STR_DIGITS < length (strip_commas (group c 1)))"
    unfolding extract_crash_iff by blast
next
  fix x assume x: "extract_cbam_request q = Inl x"
  then show v: "x = ValueError" by (simp add: extract_crash_iff)
  from x have a: "ask E q w = emit (Uncaught x) (post_question q w)"
    by (simp add: ask_def Let_def)
  show "messages (ask E q w) = messages w @ [(User, Text q)]" unfolding a by simp
  show "calls (ask E q w) = calls w" unfolding a by simp
  show "new_events w (ask E q w) = [Markdown User (Text q), Uncaught ValueError]"
    unfolding a v by (simp add: new_events_def)
next
  fix r assume r: "extract_cbam_request q = Inr r"
  have "truthy_str (product r) \<longleftrightarrow> product r \<noteq> None"
    using extract_product_nonempty[OF r] by (auto simp: truthy_str_def split: option.splits)
  moreover have "truthy_int (quantity r) \<longleftrightarrow> (\<exists>n. quantity r = Some n \<and> n \<noteq> 0)"
    by (auto simp: truthy_int_def split: option.splits)
  ultimately show "quick_calculation r (post_question q w) \<noteq> Inr None \<longleftrightarrow>
      product r \<noteq> None \<and> (\<exists>n. quantity r = Some n \<and> n \<noteq> 0)
      \<and> (emissions r \<noteq> None \<or> (\<exists>p. product r = Some p \<and> dict_get DEFAULT_EMISSIONS p \<noteq> None))"
    unfolding quick_calculation_None_iff by blast
next
  fix r assume r: "extract_cbam_request q = Inr r"
  show "(\<exists>x. quick_calculation r (post_question q w) = Inl x) \<longleftrightarrow>
             quick_calculation r (post_question q w) \<noteq> Inr None
             \<and> (\<exists>n. quantity r = Some n \<and> 2 ^ 1024 - 2 ^ 970 \<le> \<bar>n\<bar>)"
    using quick_calculation_crash_iff[of r "post_question q w"] by blast
next
  fix r x assume r: "extract_cbam_request q = Inr r"
    and x: "quick_calculation r (post_question q w) = Inl x"
  from x show v: "x = OverflowError" using quick_calculation_crash_iff[of r "post_question q w" x] by blast
  from r x have a: "ask E q w = emit (Uncaught x) (post_question q w)"
    by (simp add: ask_def Let_def)
  show "messages (ask E q w) = messages w @ [(User, Text q)]" unfolding a by simp
  show "calls (ask E q w) = calls w" unfolding a by simp
  show "new_events w (ask E q w) = [Markdown User (Text q), Uncaught OverflowError]"
    unfolding a v by (simp add: new_events_def)
next
  fix r w' assume r: "extract_cbam_request q = Inr r"
    and qc: "quick_calculation r (post_question q w) = Inr (Some w')"
  then have a: "ask E q w = w'" by (simp add: ask_def Let_def)
  from quick_calculation_shape[OF qc] obtain rep where
    w': "w' = emit (Markdown Assistant (Report rep))
              ((post_question q w)\<lparr>messages := messages (post_question q w) @ [(Assistant, Report rep)]\<rparr>)"
    by blast
  have m: "messages w' = messages w @ [(User, Text q), (Assistant, Report rep)]"
    and t: "trace w' = trace w @ [Markdown User (Text q), Markdown Assistant (Report rep)]"
    and c: "calls w' = calls w"
    unfolding w' by simp_all
  from m t have "messages (ask E q w) = messages w @ [(User, Text q), (Assistant, Report rep)]
                \<and> new_events w (ask E q w)
                    = [Markdown User (Text q), Markdown Assistant (Report rep)]"
    unfolding a by (simp add: new_events_def)
  then show "\<exists>rep. messages (ask E q w) = messages w @ [(User, Text q), (Assistant, Report rep)]
                \<and> new_events w (ask E q w)
                    = [Markdown User (Text q), Markdown Assistant (Report rep)]"
    by blast
  from c show "calls (ask E q w) = calls w" unfolding a .
next
  fix r assume r: "extract_cbam_request q = Inr r"
    and n: "quick_calculation r (post_question q w) = Inr None"
  then show a: "ask E q w = documentation_answer E q (post_question q w)"
    by (simp add: ask_def Let_def)
  from documentation_answer_search[of E q "post_question q w"] obtain es where
    "trace (documentation_answer E q (post_question q w))
       = trace (post_question q w) @ Search q NUM_RESULTS # es"
    by blast
  then have "new_events w (ask E q w) = Markdown User (Text q) # Search q NUM_RESULTS # es"
    unfolding a by (simp add: new_events_def)
  then show "\<exists>es. new_events w (ask E q w) = Markdown User (Text q) # Search q NUM_RESULTS # es"
    by blast
  from documentation_answer_calls[of "post_question q w" E q]
  show "calls w < calls (ask E q w)" unfolding a by simp
qed

text \<open>
  Four questions: 100 tons of steel at a price of 80 set by hand, 10 tons of a product
  without a default factor, a quantity of 4301 digits, and the quantity \<open>10 ^ 309\<close>.
\<close>

lemma extract_100_tons_of_steel:
  "extract_cbam_request (str ''100 tons of steel'')
     = Inr \<lparr>product = Some (str ''steel''), quantity = Some 100, emissions = None, origin_price = 0\<rparr>"
  by (simp add: extract_cbam_request_def pattern_defs)

lemma extract_10_tons_of_widget:
  "extract_cbam_request (str ''10 tons of widget'')
     = Inr \<lparr>product = Some (str ''widget''), quantity = Some 10, emissions = None, origin_price = 0\<rparr>"
  by (simp add: extract_cbam_request_def pattern_defs)

lemma extract_0_tons_of_steel:
  "extract_cbam_request (str ''0 tons of steel'')
     = Inr \<lparr>product = Some (str ''steel''), quantity = Some 0, emissions = None, origin_price = 0\<rparr>"
  by (simp add: extract_cbam_request_def pattern_defs)

lemma default_emissions_steel: "dict_get DEFAULT_EMISSIONS (str ''steel'') = Some 2.3"
  by (simp add: dict_get_def DEFAULT_EMISSIONS_def str_def)

lemma default_emissions_widget: "dict_get DEFAULT_EMISSIONS (str ''widget'') = None"
  by (simp add: dict_get_def DEFAULT_EMISSIONS_def str_def)

lemma search_qty_tons_of_steel:
  assumes "digits qs"
  shows "search qty_re (qs @ str '' tons of steel'')
           = Some ((\<lambda>n. None)(1 := Some qs, 2 := Some (str ''steel'')))"
proof -
  have "word (str ''steel'')" by (simp add: word_def str_def is_word_def)
  with assms have "match_here qty_re (qs @ str '' tons of '' @ str ''steel'' @ [])
           = Some ((\<lambda>n. None)(1 := Some qs, 2 := Some (str ''steel'')))"
    by (intro match_qty_normal) simp_all
  moreover have "qs @ str '' tons of '' @ str ''steel'' @ [] = qs @ str '' tons of steel''"
    by (simp add: str_def)
  ultimately show ?thesis by (simp add: search_here)
qed

lemma extract_long_quantity:
  assumes "digits qs" and "INT_MAX_STR_DIGITS < length qs"
  shows "extract_cbam_request (qs @ str '' tons of steel'') = Inl ValueError"
  using assms(2)
  by (simp add: extract_cbam_request_def search_qty_tons_of_steel[OF assms(1)] group_def
      strip_commas_digits[OF assms(1)] py_int_def)

lemma extract_tons_of_steel:
  assumes "digits qs" and "length qs \<le> INT_MAX_STR_DIGITS"
  shows "extract_cbam_request (qs @ str '' tons of steel'')
           = Inr \<lparr>product = Some (str ''steel''), quantity = Some (decimal qs), emissions = None,
                origin_price = 0\<rparr>"
proof -
  from assms(1) have d: "list_all is_digit qs" by (simp add: digits_def)
  have "search em_re (qs @ str '' tons of '' @ str ''steel'') = search em_re (str '' tons of '' @ str ''steel'')"
    by (rule search_em_skip_digits_tons[OF d])
  also have "\<dots> = None" by (simp add: pattern_defs)
  finally have e: "search em_re (qs @ str '' tons of steel'') = None" by (simp add: str_def)
  have "search origin_re (qs @ str '' tons of steel'') = search origin_re (str '' tons of steel'')"
    by (intro search_origin_skip_plain digits_no_keyword_head d)
  also have "\<dots> = None" by (simp add: pattern_defs)
  finally have f: "search origin_re (qs @ str '' tons of steel'') = None" .
  have l: "lower (str ''steel'') = str ''steel''" by (simp add: lower_def lower_cp_def str_def)
  from assms(2) show ?thesis
    by (simp add: extract_cbam_request_def search_qty_tons_of_steel[OF assms(1)] e f group_def
        strip_commas_digits[OF assms(1)] py_int_def l)
qed

lemma decimal_zeros: "decimal (ds @ replicate n 48) = decimal ds * 10 ^ n"
proof (induction n)
  case 0
  show ?case by simp
next
  case (Suc n)
  have "replicate (Suc n) (48 :: nat) = replicate n 48 @ [48]"
    by (simp add: replicate_append_same)
  then have "decimal (ds @ replicate (Suc n) 48) = 10 * decimal (ds @ replicate n 48)"
    by (simp add: decimal_def digit_val_def del: replicate.simps)
  with Suc show ?case by simp
qed

theorem ask_path_selection_witness:
  "messages (ask services_up (str ''100 tons of steel'') (click (UpdatePrice 80) (init_session_state 100)))
     = [(User, Text (str ''100 tons of steel'')),
        (Assistant, Report \<lparr>rep_product = str ''steel'', rep_quantity = 100, rep_factor = 2.3,
           rep_total = 230, rep_eu_price = 80, rep_origin = 0, rep_cost = 18400\<rparr>)]
   \<and> calls (ask services_up (str ''100 tons of steel'') (click (UpdatePrice 80) (init_session_state 100))) = 0
   \<and> 0 < calls (ask services_up (str ''10 tons of widget'') (init_session_state 100))
   \<and> new_events (init_session_state 100)
         (ask services_up (replicate 4301 49 @ str '' tons of steel'') (init_session_state 100))
       = [Markdown User (Text (replicate 4301 49 @ str '' tons of steel'')), Uncaught ValueError]
   \<and> new_events (init_session_state 100)
         (ask services_up ((49 # replicate 309 48) @ str '' tons of steel'') (init_session_state 100))
       = [Markdown User (Text ((49 # replicate 309 48) @ str '' tons of steel'')),
          Uncaught OverflowError]"
proof -
  define w where "w = click (UpdatePrice 80) (init_session_state 100)"
  define w0 where "w0 = init_session_state 100"
  define q where "q = str ''100 tons of steel''"
  define q' where "q' = str ''10 tons of widget''"
  define long where "long = replicate 4301 (49 :: nat)"
  define big where "big = 49 # replicate 309 (48 :: nat)"
  define rep where "rep = \<lparr>rep_product = str ''steel'', rep_quantity = 100, rep_factor = 2.3,
           rep_total = 230, rep_eu_price = 80, rep_origin = 0, rep_cost = 18400\<rparr>"
  define r where "r = \<lparr>product = Some (str ''steel''), quantity = Some 100, emissions = None,
           origin_price = 0\<rparr>"
  define r' where "r' = \<lparr>product = Some (str ''widget''), quantity = Some 10, emissions = None,
           origin_price = 0\<rparr>"
  define rb where "rb = \<lparr>product = Some (str ''steel''), quantity = Some (10 ^ 309), emissions = None,
           origin_price = 0\<rparr>"
  have w: "messages w = []" "carbon_price w = 80" "calls w = 0"
    by (simp_all add: w_def init_session_state_def manual_entry_disabled_def)
  have ex: "extract_cbam_request q = Inr r"
    unfolding q_def r_def by (rule extract_100_tons_of_steel)
  have ex': "extract_cbam_request q' = Inr r'"
    unfolding q'_def r'_def by (rule extract_10_tons_of_widget)
  have qc: "quick_calculation r (post_question q w)
      = Inr (Some (emit (Markdown Assistant (Report rep))
                ((post_question q w)\<lparr>messages := messages (post_question q w) @ [(Assistant, Report rep)]\<rparr>)))"
    unfolding r_def
    by (simp add: quick_calculation_def truthy_str_def truthy_int_def default_emissions_steel w
        calculate_cbam_cost_def py_or_def rep_def Let_def float_mul_int_def) (simp add: str_def)
  have fast: "ask services_up q w = emit (Markdown Assistant (Report rep))
                ((post_question q w)\<lparr>messages := messages (post_question q w) @ [(Assistant, Report rep)]\<rparr>)"
    by (simp add: ask_def Let_def ex qc)
  have slow: "quick_calculation r' (post_question q' w0) = Inr None"
    unfolding r'_def by (simp add: quick_calculation_def default_emissions_widget)
  have dl: "digits long" "INT_MAX_STR_DIGITS < length long"
    by (simp_all add: long_def digits_def is_digit_def INT_MAX_STR_DIGITS_def list_all_iff)
  have exl: "extract_cbam_request (long @ str '' tons of steel'') = Inl ValueError"
    by (rule extract_long_quantity[OF dl])
  have db: "digits big" "length big \<le> INT_MAX_STR_DIGITS"
    by (simp_all add: big_def digits_def is_digit_def INT_MAX_STR_DIGITS_def list_all_iff)
  have "decimal big = decimal ([49] @ replicate 309 48)" by (simp add: big_def)
  also have "\<dots> = 10 ^ 309"
    unfolding decimal_zeros by (simp add: decimal_def digit_val_def)
  finally have vb: "decimal big = 10 ^ 309" .
  have exb: "extract_cbam_request (big @ str '' tons of steel'') = Inr rb"
    unfolding rb_def using extract_tons_of_steel[OF db] by (simp only: vb)
  have "(2 :: int) ^ 1024 - 2 ^ 970 \<le> \<bar>10 ^ 309\<bar>" by simp
  moreover have "str ''steel'' \<noteq> []" by (simp add: str_def)
  ultimately have qcb: "quick_calculation rb (post_question (big @ str '' tons of steel'') w0)
                          = Inl OverflowError"
    unfolding rb_def
    by (simp add: quick_calculation_def truthy_str_def truthy_int_def default_emissions_steel
        float_mul_int_def)
  note T = ask_path_selection[where q = q and E = services_up and w = w]
  note T' = ask_path_selection[where q = q' and E = services_up and w = w0]
  note Tl = ask_path_selection[where q = "long @ str '' tons of steel''" and E = services_up and w = w0]
  note Tb = ask_path_selection[where q = "big @ str '' tons of steel''" and E = services_up and w = w0]
  from T ex qc have "calls (ask services_up q w) = calls w" by blast
  moreover from T' ex' slow have "calls w0 < calls (ask services_up q' w0)" by blast
  moreover have "messages (ask services_up q w) = [(User, Text q), (Assistant, Report rep)]"
    unfolding fast by (simp add: w)
  moreover from Tl exl have "new_events w0 (ask services_up (long @ str '' tons of steel'') w0)
       = [Markdown User (Text (long @ str '' tons of steel'')), Uncaught ValueError]" by blast
  moreover from Tb exb qcb have "new_events w0 (ask services_up (big @ str '' tons of steel'') w0)
       = [Markdown User (Text (big @ str '' tons of steel'')), Uncaught OverflowError]" by blast
  moreover have "calls w0 = 0" by (simp add: w0_def init_session_state_def)
  ultimately have "messages (ask services_up q w) = [(User, Text q), (Assistant, Report rep)]
    \<and> calls (ask services_up q w) = 0 \<and> 0 < calls (ask services_up q' w0)
    \<and> new_events w0 (ask services_up (long @ str '' tons of steel'') w0)
       = [Markdown User (Text (long @ str '' tons of steel'')), Uncaught ValueError]
    \<and> new_events w0 (ask services_up (big @ str '' tons of steel'') w0)
       = [Markdown User (Text (big @ str '' tons of steel'')), Uncaught OverflowError]"
    by (simp add: w)
  then show ?thesis
    unfolding w_def w0_def q_def q'_def rep_def long_def big_def .
qed

text \<open>
  The claim as first stated makes the path depend only on what was extracted. The question
  "0 tons of steel" yields the product "steel", a key of the table, and the quantity 0, so
  it is eligible as stated; the test \<open>if prod and qty\<close> of \<open>main\<close> is false for the integer 0
  and the turn takes the documentation path.
\<close>

theorem ask_zero_quantity_slow_path:
  "extract_cbam_request (str ''0 tons of steel'')
     = Inr \<lparr>product = Some (str ''steel''), quantity = Some 0, emissions = None, origin_price = 0\<rparr>
   \<and> eligible_as_stated
        \<lparr>product = Some (str ''steel''), quantity = Some 0, emissions = None, origin_price = 0\<rparr>
   \<and> quick_calculation
        \<lparr>product = Some (str ''steel''), quantity = Some 0, emissions = None, origin_price = 0\<rparr>
        (post_question (str ''0 tons of steel'') (init_session_state 100)) = Inr None
   \<and> ask services_up (str ''0 tons of steel'') (init_session_state 100)
       = documentation_answer services_up (str ''0 tons of steel'')
           (post_question (str ''0 tons of steel'') (init_session_state 100))"
proof -
  let ?q = "str ''0 tons of steel''"
  let ?r = "\<lparr>product = Some (str ''steel''), quantity = Some 0, emissions = None, origin_price = 0\<rparr>"
  have e: "eligible_as_stated ?r"
    unfolding eligible_as_stated_def
    by (intro conjI disjI2 exI[of _ "str ''steel''"]) (simp_all add: default_emissions_steel)
  have n: "quick_calculation ?r (post_question ?q (init_session_state 100)) = Inr None"
    by (simp add: quick_calculation_def truthy_int_def)
  from e n extract_0_tons_of_steel show ?thesis by (simp add: ask_def Let_def)
qed

section \<open>The first match of each pattern\<close>





































end
